theory Spec2Isabelle
  imports Complex_Main "HOL-Library.Log_Nat"
begin

section \<open>Python numbers\<close>

text \<open>
  The parking calculator (\<^verbatim>\<open>src/analyzers/parking_calculator.py\<close>) computes with Python
  \<^verbatim>\<open>int\<close> (unbounded) and \<^verbatim>\<open>float\<close> (IEEE 754 binary64) values: every ratio of the table
  is a float, \<^verbatim>\<open>/\<close> is true division, and \<^verbatim>\<open>math.ceil\<close> turns the float back into an
  int. The model keeps both kinds of number apart. A finite float is a sign and a
  magnitude (a rational that is a binary64 value), so that \<^verbatim>\<open>-0.0\<close> is a value of its
  own; every arithmetic result is rounded to nearest, ties to even, by \<open>rnd\<close>.
\<close>

datatype py_error = OverflowError | ValueError | ZeroDivisionError | KeyError

datatype pyfloat = Finite bool rat | Infinite bool | NaN

datatype pynum = PInt int | PFloat pyfloat

text \<open>Rounding a rational to the nearest integer, ties to the even one.\<close>

definition round_half_even :: "rat \<Rightarrow> int" where
  "round_half_even y =
     (let f = \<lfloor>y\<rfloor>; r = y - of_int f
      in if r < 1 / 2 then f else if 1 / 2 < r then f + 1 else if even f then f else f + 1)"

text \<open>\<open>ilog2 x\<close> is the binary exponent of a positive rational: \<open>2 powi ilog2 x \<le> x < 2 powi (ilog2 x + 1)\<close>.\<close>

definition ilog2 :: "rat \<Rightarrow> int" where
  "ilog2 x = (if 1 \<le> x then bitlen \<lfloor>x\<rfloor> - 1 else - bitlen (\<lceil>1 / x\<rceil> - 1))"

text \<open>
  The spacing of binary64 values around \<open>x\<close>: 53 significant bits, and the fixed
  spacing \<open>2 powi (- 1074)\<close> of the subnormal range below \<open>2 powi (- 1022)\<close>.
\<close>

definition ulp :: "rat \<Rightarrow> rat" where
  "ulp x = 2 powi (max (ilog2 x) (- 1022) - 52)"

definition rnd :: "rat \<Rightarrow> rat" where
  "rnd x = (if x = 0 then 0 else of_int (round_half_even (x / ulp x)) * ulp x)"

text \<open>The exponent that fixes the spacing, for the statements about \<open>ulp\<close>.\<close>

definition fexp :: "rat \<Rightarrow> int" where
  "fexp x = max (ilog2 x) (- 1022)"

text \<open>A rounded magnitude from \<open>2 ^ 1024\<close> on is no finite binary64 value any more.\<close>

definition overflows :: "rat \<Rightarrow> bool" where
  "overflows r = (2 ^ 1024 \<le> r)"

text \<open>An IEEE operation rounds its exact result; a result out of range becomes an infinity.\<close>

definition pack :: "bool \<Rightarrow> rat \<Rightarrow> pyfloat" where
  "pack s m = (let r = rnd m in if overflows r then Infinite s else Finite s r)"

text \<open>A float literal of the source (\<^verbatim>\<open>0.33\<close>, \<^verbatim>\<open>0.85\<close>) denotes the nearest binary64 value.\<close>

definition float_literal :: "rat \<Rightarrow> pyfloat" where
  "float_literal q = Finite False (rnd q)"

text \<open>\<^verbatim>\<open>float * float\<close>: overflow gives an infinity, not an exception.\<close>

fun float_mul :: "pyfloat \<Rightarrow> pyfloat \<Rightarrow> pyfloat" where
  "float_mul NaN _ = NaN"
| "float_mul _ NaN = NaN"
| "float_mul (Infinite s) (Infinite t) = Infinite (s \<noteq> t)"
| "float_mul (Infinite s) (Finite t m) = (if m = 0 then NaN else Infinite (s \<noteq> t))"
| "float_mul (Finite s m) (Infinite t) = (if m = 0 then NaN else Infinite (s \<noteq> t))"
| "float_mul (Finite s m) (Finite t n) = pack (s \<noteq> t) (m * n)"

text \<open>\<^verbatim>\<open>float / float\<close>: Python tests the divisor for zero before anything else.\<close>

fun float_div :: "pyfloat \<Rightarrow> pyfloat \<Rightarrow> py_error + pyfloat" where
  "float_div x (Finite t n) =
     (if n = 0 then Inl ZeroDivisionError
      else case x of
        NaN \<Rightarrow> Inr NaN
      | Infinite s \<Rightarrow> Inr (Infinite (s \<noteq> t))
      | Finite s m \<Rightarrow> Inr (pack (s \<noteq> t) (m / n)))"
| "float_div x (Infinite t) =
     (case x of Finite s m \<Rightarrow> Inr (Finite (s \<noteq> t) 0) | _ \<Rightarrow> Inr NaN)"
| "float_div x NaN = Inr NaN"

text \<open>
  \<^verbatim>\<open>int\<close> to \<^verbatim>\<open>float\<close>, as the mixed operations convert their int operand: correctly rounded,
  and \<^verbatim>\<open>OverflowError\<close> (int too large to convert to float) beyond the range.
\<close>

definition int_to_float :: "int \<Rightarrow> py_error + pyfloat" where
  "int_to_float i =
     (let r = rnd (of_int \<bar>i\<bar>)
      in if overflows r then Inl OverflowError else Inr (Finite (i < 0) r))"

text \<open>
  \<^verbatim>\<open>int / int\<close>: the correctly rounded quotient of the two exact integers, and
  \<^verbatim>\<open>OverflowError\<close> (integer division result too large for a float) beyond the range.
\<close>

definition int_truediv :: "int \<Rightarrow> int \<Rightarrow> py_error + pyfloat" where
  "int_truediv a b =
     (if b = 0 then Inl ZeroDivisionError
      else let r = rnd (of_int \<bar>a\<bar> / of_int \<bar>b\<bar>)
           in if overflows r then Inl OverflowError
              else Inr (Finite ((a < 0) \<noteq> (b < 0)) r))"

fun py_mul :: "pynum \<Rightarrow> pynum \<Rightarrow> py_error + pynum" where
  "py_mul (PInt a) (PInt b) = Inr (PInt (a * b))"
| "py_mul (PFloat x) (PInt b) =
     (case int_to_float b of Inl e \<Rightarrow> Inl e | Inr y \<Rightarrow> Inr (PFloat (float_mul x y)))"
| "py_mul (PInt a) (PFloat y) =
     (case int_to_float a of Inl e \<Rightarrow> Inl e | Inr x \<Rightarrow> Inr (PFloat (float_mul x y)))"
| "py_mul (PFloat x) (PFloat y) = Inr (PFloat (float_mul x y))"

fun py_truediv :: "pynum \<Rightarrow> pynum \<Rightarrow> py_error + pynum" where
  "py_truediv (PInt a) (PInt b) =
     (case int_truediv a b of Inl e \<Rightarrow> Inl e | Inr q \<Rightarrow> Inr (PFloat q))"
| "py_truediv (PFloat x) (PInt b) =
     (case int_to_float b of Inl e \<Rightarrow> Inl e
      | Inr y \<Rightarrow> (case float_div x y of Inl e \<Rightarrow> Inl e | Inr q \<Rightarrow> Inr (PFloat q)))"
| "py_truediv (PInt a) (PFloat y) =
     (case int_to_float a of Inl e \<Rightarrow> Inl e
      | Inr x \<Rightarrow> (case float_div x y of Inl e \<Rightarrow> Inl e | Inr q \<Rightarrow> Inr (PFloat q)))"
| "py_truediv (PFloat x) (PFloat y) =
     (case float_div x y of Inl e \<Rightarrow> Inl e | Inr q \<Rightarrow> Inr (PFloat q))"

text \<open>
  \<^verbatim>\<open>math.ceil\<close>: an int is its own ceiling; an infinity raises \<^verbatim>\<open>OverflowError\<close>, a NaN
  \<^verbatim>\<open>ValueError\<close>.
\<close>

fun math_ceil :: "pynum \<Rightarrow> py_error + int" where
  "math_ceil (PInt i) = Inr i"
| "math_ceil (PFloat (Finite s m)) = Inr (if s then - \<lfloor>m\<rfloor> else \<lceil>m\<rceil>)"
| "math_ceil (PFloat (Infinite s)) = Inl OverflowError"
| "math_ceil (PFloat NaN) = Inl ValueError"

text \<open>Truth value of a number: only zero is false (a NaN is true).\<close>

fun py_bool :: "pynum \<Rightarrow> bool" where
  "py_bool (PInt i) = (i \<noteq> 0)"
| "py_bool (PFloat (Finite s m)) = (m \<noteq> 0)"
| "py_bool (PFloat _) = True"

text \<open>
  Python's \<^verbatim>\<open><=\<close> on numbers: exact, also between an int and a float; false as soon as
  one side is a NaN.
\<close>

fun float_value :: "pyfloat \<Rightarrow> rat" where
  "float_value (Finite s m) = (if s then - m else m)"
| "float_value _ = 0"

fun float_le :: "pyfloat \<Rightarrow> pyfloat \<Rightarrow> bool" where
  "float_le NaN _ = False"
| "float_le _ NaN = False"
| "float_le (Infinite s) (Infinite t) = (s \<or> \<not> t)"
| "float_le (Infinite s) (Finite t n) = s"
| "float_le (Finite s m) (Infinite t) = (\<not> t)"
| "float_le (Finite s m) (Finite t n) = (float_value (Finite s m) \<le> float_value (Finite t n))"

fun py_le :: "pynum \<Rightarrow> pynum \<Rightarrow> bool" where
  "py_le (PInt a) (PInt b) = (a \<le> b)"
| "py_le (PInt a) (PFloat y) = float_le (Finite (a < 0) (of_int \<bar>a\<bar>)) y"
| "py_le (PFloat x) (PInt b) = float_le x (Finite (b < 0) (of_int \<bar>b\<bar>))"
| "py_le (PFloat x) (PFloat y) = float_le x y"

section \<open>Strings\<close>

text \<open>
  A \<^verbatim>\<open>str\<close> is a \<open>string\<close>; the two characters of the source outside ASCII are kept as
  their UTF-8 bytes. An f-string is kept as the list of its pieces, the interpolated
  values unrendered, so that no claim depends on how Python prints a float.
\<close>

datatype piece = Lit string | Str string | Num pynum | Fixed2 pynum

type_synonym fstring = "piece list"

definition warning_sign :: string where
  "warning_sign = [CHR 0xE2, CHR 0x9A, CHR 0xA0, CHR 0xEF, CHR 0xB8, CHR 0x8F]"

definition times_sign :: string where
  "times_sign = [CHR 0xC3, CHR 0x97]"

fun starts_with :: "string \<Rightarrow> string \<Rightarrow> bool" where
  "starts_with [] _ = True"
| "starts_with (a # as) [] = False"
| "starts_with (a # as) (b # bs) = (a = b \<and> starts_with as bs)"

text \<open>\<^verbatim>\<open>needle in haystack\<close> on strings: the needle occurs as a contiguous substring.\<close>

fun py_in :: "string \<Rightarrow> string \<Rightarrow> bool" where
  "py_in needle [] = (needle = [])"
| "py_in needle (c # cs) = (starts_with needle (c # cs) \<or> py_in needle cs)"

section \<open>The calculator\<close>

text \<open>Every raise of the source is a left value; \<open>and_then\<close> runs the next statement on a result.\<close>

definition and_then :: "py_error + 'a \<Rightarrow> ('a \<Rightarrow> py_error + 'b) \<Rightarrow> py_error + 'b" where
  "and_then m f = (case m of Inl e \<Rightarrow> Inl e | Inr v \<Rightarrow> f v)"

text \<open>
  The dataclass \<^verbatim>\<open>ParkingRequirement\<close> (lines 16 to 26). \<open>units\<close> is \<^verbatim>\<open>Optional[int]\<close>;
  the strings built by f-strings are kept as pieces, and the field
  \<^verbatim>\<open>notes\<close> is \<open>result_notes\<close> (\<open>notes\<close> is a keyword of Isabelle).
\<close>

record ParkingRequirement =
  use_type :: string
  gross_sf :: pynum
  units :: "int option"
  base_ratio :: fstring
  required_spaces :: int
  ada_spaces :: int
  total_spaces :: int
  result_notes :: "fstring list"

text \<open>
  One value of the dict \<^verbatim>\<open>PARKING_RATIOS\<close> (lines 30 to 63), with its keys \<^verbatim>\<open>"ratio"\<close>,
  \<^verbatim>\<open>"unit"\<close> and \<^verbatim>\<open>"notes"\<close>; the dict itself is the list of its items in source order,
  read with \<open>map_of\<close> (its keys are distinct).
\<close>

record ratio_info =
  entry_ratio :: pynum
  entry_unit :: string
  entry_notes :: string

definition entry :: "rat \<Rightarrow> string \<Rightarrow> string \<Rightarrow> ratio_info" where
  "entry r u n = \<lparr>entry_ratio = PFloat (float_literal r), entry_unit = u, entry_notes = n\<rparr>"

definition PARKING_RATIOS :: "(string \<times> ratio_info) list" where
  "PARKING_RATIOS =
    [(''single_family'', entry 2 ''dwelling unit'' ''2 spaces per DU''),
     (''multi_family'', entry (15 / 10) ''dwelling unit'' ''1.5 spaces per DU + guest parking''),
     (''townhouse'', entry 2 ''dwelling unit'' ''2 spaces per DU''),
     (''senior_housing'', entry (5 / 10) ''dwelling unit'' ''0.5 spaces per DU''),
     (''retail'', entry 4 ''1,000 SF GFA'' ''4 spaces per 1,000 SF''),
     (''shopping_center'', entry (45 / 10) ''1,000 SF GLA'' ''4.5 spaces per 1,000 SF GLA''),
     (''restaurant'', entry 10 ''1,000 SF'' ''10 spaces per 1,000 SF or 1 per 3 seats''),
     (''fast_food'', entry 12 ''1,000 SF'' ''12 spaces per 1,000 SF''),
     (''bank'', entry 4 ''1,000 SF'' ''4 spaces per 1,000 SF + queue for drive-thru''),
     (''office_general'', entry 3 ''1,000 SF'' ''3 spaces per 1,000 SF''),
     (''office_medical'', entry 5 ''1,000 SF'' ''5 spaces per 1,000 SF''),
     (''office_dental'', entry (45 / 10) ''1,000 SF'' ''4.5 spaces per 1,000 SF''),
     (''warehouse'', entry 1 ''1,000 SF'' ''1 space per 1,000 SF''),
     (''manufacturing'', entry (15 / 10) ''1,000 SF'' ''1.5 spaces per 1,000 SF''),
     (''flex_space'', entry 2 ''1,000 SF'' ''2 spaces per 1,000 SF''),
     (''church'', entry (33 / 100) ''seat'' ''1 space per 3 seats''),
     (''school_elementary'', entry 2 ''classroom'' ''2 spaces per classroom''),
     (''school_high'', entry 8 ''classroom'' ''8 spaces per classroom''),
     (''daycare'', entry 1 ''employee + 1 per 10 children'' ''Drop-off lane required''),
     (''gym_fitness'', entry 5 ''1,000 SF'' ''5 spaces per 1,000 SF''),
     (''hotel'', entry 1 ''room'' ''1 space per room + employee parking'')]"

definition ADA_REQUIREMENTS :: "(int \<times> int) list" where
  "ADA_REQUIREMENTS =
    [(25, 1), (50, 2), (75, 3), (100, 4), (150, 5), (200, 6), (300, 7), (400, 8), (500, 9),
     (1000, 2)]"

text \<open>The \<^verbatim>\<open>for\<close> loop of lines 86 to 88: the first pair whose threshold is not below
  the argument \<^verbatim>\<open>total_spaces\<close>, here \<open>spaces\<close>.\<close>

fun scan_ada :: "(int \<times> int) list \<Rightarrow> int \<Rightarrow> int option" where
  "scan_ada [] spaces = None"
| "scan_ada ((threshold, required) # rest) spaces =
     (if spaces \<le> threshold then Some required else scan_ada rest spaces)"

definition calculate_ada_spaces :: "int \<Rightarrow> py_error + int" where
  "calculate_ada_spaces spaces =
     (if spaces \<le> 0 then Inr 0
      else case scan_ada ADA_REQUIREMENTS spaces of
        Some required \<Rightarrow> Inr required
      | None \<Rightarrow>
          and_then (py_truediv (PInt (spaces - 1000)) (PInt 100)) (\<lambda>q.
          and_then (math_ceil q) (\<lambda>c. Inr (20 + c))))"

definition calculate_van_accessible :: "int \<Rightarrow> py_error + int" where
  "calculate_van_accessible ada =
     and_then (py_truediv (PInt ada) (PInt 6)) (\<lambda>q.
     and_then (math_ceil q) (\<lambda>c. Inr (max 1 c)))"

text \<open>
  The arm of the \<^verbatim>\<open>if\<close>/\<^verbatim>\<open>elif\<close> chain of lines 133 to 151 that a unit string takes: the
  substring tests in the order of the source, \<open>Unrecognized\<close> for the final \<^verbatim>\<open>else\<close>.
\<close>

datatype basis = DwellingUnit | ThousandSF | Seat | Room | Classroom | Unrecognized

definition dispatch :: "string \<Rightarrow> basis" where
  "dispatch unit_type =
     (if py_in ''dwelling unit'' unit_type then DwellingUnit
      else if py_in ''1,000 SF'' unit_type then ThousandSF
      else if py_in ''seat'' unit_type then Seat
      else if py_in ''room'' unit_type then Room
      else if py_in ''classroom'' unit_type then Classroom
      else Unrecognized)"

definition calculation_note :: "pynum \<Rightarrow> piece \<Rightarrow> string \<Rightarrow> int \<Rightarrow> fstring" where
  "calculation_note ratio quantity what required =
     [Lit ''Calculation: '', Num ratio, Lit ('' '' @ times_sign @ '' ''), quantity,
      Lit what, Num (PInt required), Lit '' spaces'']"

text \<open>Lines 133 to 151: the required spaces and the note of the arm taken.\<close>

definition base_requirement ::
  "pynum \<Rightarrow> string \<Rightarrow> pynum \<Rightarrow> int \<Rightarrow> int \<Rightarrow> py_error + (int \<times> fstring)" where
  "base_requirement ratio unit_type gross units_arg seats =
     (case dispatch unit_type of
        DwellingUnit \<Rightarrow>
          and_then (py_mul ratio (PInt units_arg)) (\<lambda>p.
          and_then (math_ceil p) (\<lambda>required.
          Inr (required, calculation_note ratio (Num (PInt units_arg)) '' units = '' required)))
      | ThousandSF \<Rightarrow>
          and_then (py_truediv gross (PInt 1000)) (\<lambda>sf_units.
          and_then (py_mul ratio sf_units) (\<lambda>p.
          and_then (math_ceil p) (\<lambda>required.
          Inr (required, calculation_note ratio (Fixed2 sf_units) '' (1,000 SF) = '' required))))
      | Seat \<Rightarrow>
          and_then (py_mul ratio (PInt seats)) (\<lambda>p.
          and_then (math_ceil p) (\<lambda>required.
          Inr (required, calculation_note ratio (Num (PInt seats)) '' seats = '' required)))
      | Room \<Rightarrow>
          and_then (py_mul ratio (PInt units_arg)) (\<lambda>p.
          and_then (math_ceil p) (\<lambda>required.
          Inr (required, calculation_note ratio (Num (PInt units_arg)) '' rooms = '' required)))
      | Classroom \<Rightarrow>
          and_then (py_mul ratio (PInt units_arg)) (\<lambda>p.
          and_then (math_ceil p) (\<lambda>required.
          Inr (required,
               calculation_note ratio (Num (PInt units_arg)) '' classrooms = '' required)))
      | Unrecognized \<Rightarrow>
          and_then (py_truediv gross (PInt 1000)) (\<lambda>sf_units.
          and_then (py_mul ratio sf_units) (\<lambda>p.
          and_then (math_ceil p) (\<lambda>required.
          Inr (required, [Lit ''Default calculation based on SF''])))))"

definition unknown_use_note :: "string \<Rightarrow> fstring" where
  "unknown_use_note name =
     [Lit (warning_sign @ '' Unknown use type '' @ [CHR 0x27]), Str name,
      Lit ([CHR 0x27] @ '', using general office ratio'')]"

definition ada_note :: "int \<Rightarrow> int \<Rightarrow> fstring" where
  "ada_note ada van =
     [Lit ''ADA: '', Num (PInt ada), Lit '' accessible spaces ('', Num (PInt van),
      Lit '' van accessible)'']"

text \<open>
  \<^verbatim>\<open>calculate_parking\<close> (lines 99 to 170). The arguments are typed as the source
  annotates them, an int being accepted where a float is expected: \<open>gross\<close> and
  \<open>custom_ratio\<close> are numbers, \<open>units_arg\<close>, \<open>seats\<close> and \<open>employees\<close> are ints.
  \<open>name\<close>, \<open>gross\<close> and \<open>units_arg\<close> are the parameters \<^verbatim>\<open>use_type\<close>, \<^verbatim>\<open>gross_sf\<close> and
  \<^verbatim>\<open>units\<close>, whose own names are taken by the fields of the result.
\<close>

definition calculate_parking ::
  "string \<Rightarrow> pynum \<Rightarrow> int \<Rightarrow> int \<Rightarrow> int \<Rightarrow> pynum option
     \<Rightarrow> py_error + ParkingRequirement" where
  "calculate_parking name gross units_arg seats employees custom_ratio =
     (let unknown = (map_of PARKING_RATIOS name = None);
          notes0 = (if unknown then [unknown_use_note name] else []);
          name1 = (if unknown then ''office_general'' else name)
      in case map_of PARKING_RATIOS name1 of
           None \<Rightarrow> Inl KeyError
         | Some info \<Rightarrow>
             (let ratio = (case custom_ratio of
                             None \<Rightarrow> entry_ratio info
                           | Some c \<Rightarrow> if py_bool c then c else entry_ratio info);
                  unit_type = entry_unit info;
                  notes1 = notes0 @ [[Lit (entry_notes info)]]
              in and_then (base_requirement ratio unit_type gross units_arg seats)
                   (\<lambda>(required, note).
                 and_then (calculate_ada_spaces required) (\<lambda>ada.
                 and_then (calculate_van_accessible ada) (\<lambda>van_accessible.
                 Inr \<lparr>use_type = name1,
                      gross_sf = gross,
                      units = Some units_arg,
                      base_ratio = [Num ratio, Lit '' per '', Str unit_type],
                      required_spaces = required,
                      ada_spaces = ada,
                      total_spaces = required,
                      result_notes = notes1 @ [note] @ [ada_note ada van_accessible]\<rparr>)))))"

text \<open>
  One dict of the list given to \<^verbatim>\<open>calculate_mixed_use\<close>: each key that the function reads
  is present with a value or absent; \<open>get\<close> is \<^verbatim>\<open>dict.get(key, default)\<close>.
\<close>

record use_dict =
  d_use_type :: "string option"
  d_gross_sf :: "pynum option"
  d_units :: "int option"
  d_seats :: "int option"

definition get :: "'a option \<Rightarrow> 'a \<Rightarrow> 'a" where
  "get v dflt = (case v of None \<Rightarrow> dflt | Some x \<Rightarrow> x)"

record MixedUseResult =
  individual_calculations :: "ParkingRequirement list"
  total_without_sharing :: int
  shared_parking_potential :: int
  potential_reduction :: int
  ada_total :: int
  mixed_notes :: "string list"

text \<open>\<^verbatim>\<open>calculate_parking\<close> as line 187 calls it: four keyword arguments, the others default.\<close>

definition calculate_use :: "use_dict \<Rightarrow> py_error + ParkingRequirement" where
  "calculate_use u =
     calculate_parking (get (d_use_type u) ''office_general'') (get (d_gross_sf u) (PInt 0))
       (get (d_units u) 0) (get (d_seats u) 0) 0 None"

text \<open>The loop of lines 186 to 194, with its two accumulators.\<close>

fun mixed_loop ::
  "use_dict list \<Rightarrow> ParkingRequirement list \<Rightarrow> int
     \<Rightarrow> py_error + (ParkingRequirement list \<times> int)" where
  "mixed_loop [] results total_required = Inr (results, total_required)"
| "mixed_loop (u # rest) results total_required =
     and_then (calculate_use u) (\<lambda>result.
     mixed_loop rest (results @ [result]) (total_required + required_spaces result))"

definition calculate_mixed_use :: "use_dict list \<Rightarrow> py_error + MixedUseResult" where
  "calculate_mixed_use uses =
     and_then (mixed_loop uses [] 0) (\<lambda>(results, total_required).
     and_then (py_mul (PInt total_required) (PFloat (float_literal (85 / 100)))) (\<lambda>p.
     and_then (math_ceil p) (\<lambda>shared_potential.
     and_then (calculate_ada_spaces shared_potential) (\<lambda>ada.
     Inr \<lparr>individual_calculations = results,
          total_without_sharing = total_required,
          shared_parking_potential = shared_potential,
          potential_reduction = total_required - shared_potential,
          ada_total = ada,
          mixed_notes =
            [''Shared parking analysis based on ULI Shared Parking methodology'',
             ''Actual reduction requires detailed time-of-day analysis'',
             ''Local jurisdiction approval required for shared parking credits'']\<rparr>))))"

section \<open>Auxiliary notions of the statements\<close>

text \<open>The arm that each key of the table takes.\<close>

definition basis_table :: "(string \<times> basis) list" where
  "basis_table = map (\<lambda>(name, info). (name, dispatch (entry_unit info))) PARKING_RATIOS"

text \<open>A result with the warning of an unknown use type put in front of its notes.\<close>

definition with_warning :: "string \<Rightarrow> ParkingRequirement \<Rightarrow> ParkingRequirement" where
  "with_warning name r = r\<lparr>result_notes := unknown_use_note name # result_notes r\<rparr>"

text \<open>
  The step function in the words of section 4.3 of the specification: 0 up to 0, the
  first required count whose threshold is not below the total up to 1000, and 20 plus the
  exact ceiling of the hundredth of the excess beyond (no row of the table is left over
  up to 1000, so the \<open>None\<close> case is never reached).
\<close>

definition ada_step :: "int \<Rightarrow> int" where
  "ada_step n =
     (if n \<le> 0 then 0
      else if n \<le> 1000 then
        (case find (\<lambda>(threshold, required). n \<le> threshold) ADA_REQUIREMENTS of
           Some (threshold, required) \<Rightarrow> required
         | None \<Rightarrow> 0)
      else 20 + \<lceil>(of_int n - 1000) / (100::rat)\<rceil>)"

text \<open>The dicts \<^verbatim>\<open>{"use_type": name, "gross_sf": sf}\<close> and \<^verbatim>\<open>{"use_type": name, "units": n}\<close>.\<close>

definition gross_use :: "string \<Rightarrow> int \<Rightarrow> use_dict" where
  "gross_use name sf =
     \<lparr>d_use_type = Some name, d_gross_sf = Some (PInt sf), d_units = None, d_seats = None\<rparr>"

definition units_use :: "string \<Rightarrow> int \<Rightarrow> use_dict" where
  "units_use name n =
     \<lparr>d_use_type = Some name, d_gross_sf = None, d_units = Some n, d_seats = None\<rparr>"

text \<open>The numbers of a mixed-use result: the required spaces per use, then the four totals.\<close>

definition mixed_summary :: "MixedUseResult \<Rightarrow> int list \<times> int \<times> int \<times> int \<times> int" where
  "mixed_summary m =
     (map required_spaces (individual_calculations m), total_without_sharing m,
      shared_parking_potential m, potential_reduction m, ada_total m)"

text \<open>
  A number whose magnitude is in the range of the finite floats: an int that converts to
  a float, or a finite float (its magnitude is not negative).
\<close>

fun finite_num :: "pynum \<Rightarrow> bool" where
  "finite_num (PInt n) = (\<not> overflows (of_int \<bar>n\<bar>))"
| "finite_num (PFloat (Finite s m)) = (0 \<le> m \<and> \<not> overflows m)"
| "finite_num (PFloat _) = False"

text \<open>
  The values of the model that are Python numbers: the magnitude of a finite float is a
  binary64 magnitude (not negative, a fixed point of the rounding, in range).
\<close>

fun valid_float :: "pyfloat \<Rightarrow> bool" where
  "valid_float (Finite s m) = (0 \<le> m \<and> rnd m = m \<and> \<not> overflows m)"
| "valid_float _ = True"

fun valid_num :: "pynum \<Rightarrow> bool" where
  "valid_num (PInt i) = True"
| "valid_num (PFloat x) = valid_float x"

text \<open>Rounding with the sign kept: what an IEEE operation does to its exact result.\<close>

definition sround :: "rat \<Rightarrow> rat" where
  "sround v = (if v < 0 then - rnd (- v) else rnd v)"

text \<open>A finite float whose magnitude is not negative, and the exact value of a number.\<close>

fun finite_float :: "pyfloat \<Rightarrow> bool" where
  "finite_float (Finite s m) = (0 \<le> m)"
| "finite_float _ = False"

fun num_value :: "pynum \<Rightarrow> rat" where
  "num_value (PInt i) = of_int i"
| "num_value (PFloat x) = float_value x"

text \<open>The value with which a ratio enters a float product: an int ratio is converted first.\<close>

fun ratio_value :: "pynum \<Rightarrow> rat" where
  "ratio_value (PInt k) = sround (of_int k)"
| "ratio_value (PFloat x) = float_value x"

text \<open>
  The two formulas of the dispatch, without their notes: \<^verbatim>\<open>math.ceil(ratio * quantity)\<close> and
  \<^verbatim>\<open>math.ceil(ratio * (gross_sf / 1000))\<close>.
\<close>

definition mul_ceil :: "pynum \<Rightarrow> pynum \<Rightarrow> py_error + int" where
  "mul_ceil ratio quantity = and_then (py_mul ratio quantity) math_ceil"

definition sf_ceil :: "pynum \<Rightarrow> pynum \<Rightarrow> py_error + int" where
  "sf_ceil ratio gross =
     and_then (py_truediv gross (PInt 1000)) (\<lambda>sf_units. mul_ceil ratio sf_units)"

text \<open>The part of \<open>valid_num\<close> that the monotonicity proof needs.\<close>

fun wf_num :: "pynum \<Rightarrow> bool" where
  "wf_num (PFloat (Finite s m)) = (0 \<le> m)"
| "wf_num _ = True"

text \<open>Neither an infinity nor a NaN.\<close>

fun finite_value :: "pynum \<Rightarrow> bool" where
  "finite_value (PInt i) = True"
| "finite_value (PFloat (Finite s m)) = True"
| "finite_value (PFloat _) = False"

text \<open>
  The table entry and the ratio that \<open>calculate_parking\<close> computes with (lines 123 to
  129), and the required spaces of lines 133 to 151 by themselves.
\<close>

definition resolved_info :: "string \<Rightarrow> ratio_info" where
  "resolved_info name =
     (case map_of PARKING_RATIOS name of
        None \<Rightarrow> entry 3 ''1,000 SF'' ''3 spaces per 1,000 SF''
      | Some info \<Rightarrow> info)"

definition effective_ratio :: "string \<Rightarrow> pynum option \<Rightarrow> pynum" where
  "effective_ratio name custom_ratio =
     (case custom_ratio of
        None \<Rightarrow> entry_ratio (resolved_info name)
      | Some c \<Rightarrow> if py_bool c then c else entry_ratio (resolved_info name))"

definition required_of :: "pynum \<Rightarrow> string \<Rightarrow> pynum \<Rightarrow> int \<Rightarrow> int \<Rightarrow> py_error + int" where
  "required_of ratio unit_type gross units_arg seats =
     (case dispatch unit_type of
        DwellingUnit \<Rightarrow> mul_ceil ratio (PInt units_arg)
      | ThousandSF \<Rightarrow> sf_ceil ratio gross
      | Seat \<Rightarrow> mul_ceil ratio (PInt seats)
      | Room \<Rightarrow> mul_ceil ratio (PInt units_arg)
      | Classroom \<Rightarrow> mul_ceil ratio (PInt units_arg)
      | Unrecognized \<Rightarrow> sf_ceil ratio gross)"

text \<open>The note of the final \<^verbatim>\<open>else\<close> of the dispatch (line 151).\<close>

definition default_note :: fstring where
  "default_note = [Lit ''Default calculation based on SF'']"

section \<open>Rounding to binary64\<close>

text \<open>
  What the proofs need of \<open>rnd\<close>: it moves a value by at most half a spacing, it never
  crosses a value of the grid, and it is monotone.
\<close>

lemma rhe_cases:
  "round_half_even y = \<lfloor>y\<rfloor> \<or> round_half_even y = \<lfloor>y\<rfloor> + 1"
  by (simp add: round_half_even_def Let_def)

lemma rhe_lower: "y - 1 / 2 \<le> of_int (round_half_even y)"
proof -
  have "of_int \<lfloor>y\<rfloor> \<le> y" "y < of_int \<lfloor>y\<rfloor> + 1" by linarith+
  then show ?thesis
    unfolding round_half_even_def Let_def
    by (cases "y - of_int \<lfloor>y\<rfloor> < 1 / 2"; cases "1 / 2 < y - of_int \<lfloor>y\<rfloor>";
        cases "even \<lfloor>y\<rfloor>"; simp; linarith)
qed

lemma rhe_upper: "of_int (round_half_even y) \<le> y + 1 / 2"
proof -
  have "of_int \<lfloor>y\<rfloor> \<le> y" "y < of_int \<lfloor>y\<rfloor> + 1" by linarith+
  then show ?thesis
    unfolding round_half_even_def Let_def
    by (cases "y - of_int \<lfloor>y\<rfloor> < 1 / 2"; cases "1 / 2 < y - of_int \<lfloor>y\<rfloor>";
        cases "even \<lfloor>y\<rfloor>"; simp; linarith)
qed

lemma rhe_of_int [simp]: "round_half_even (of_int k) = k"
  by (simp add: round_half_even_def)

lemma rhe_mono: "x \<le> y \<Longrightarrow> round_half_even x \<le> round_half_even y"
proof -
  assume xy: "x \<le> y"
  have fl: "\<lfloor>x\<rfloor> \<le> \<lfloor>y\<rfloor>" using xy by (rule floor_mono)
  show ?thesis
  proof (cases "\<lfloor>x\<rfloor> = \<lfloor>y\<rfloor>")
    case True
    with xy show ?thesis
      by (auto simp: round_half_even_def Let_def)
  next
    case False
    with fl have "\<lfloor>x\<rfloor> + 1 \<le> \<lfloor>y\<rfloor>" by simp
    moreover have "round_half_even x \<le> \<lfloor>x\<rfloor> + 1" using rhe_cases [of x] by auto
    moreover have "\<lfloor>y\<rfloor> \<le> round_half_even y" using rhe_cases [of y] by auto
    ultimately show ?thesis by linarith
  qed
qed

lemma rhe_le_int: "y \<le> of_int k \<Longrightarrow> round_half_even y \<le> k"
  using rhe_mono [of y "of_int k"] by simp

lemma rhe_ge_int: "of_int k \<le> y \<Longrightarrow> k \<le> round_half_even y"
  using rhe_mono [of "of_int k" y] by simp

lemma ilog2_bounds:
  assumes "0 < x"
  shows "2 powi (ilog2 x) \<le> x" and "x < 2 powi (ilog2 x + 1)"
proof -
  have "2 powi (ilog2 x) \<le> x \<and> x < 2 powi (ilog2 x + 1)"
  proof (cases "1 \<le> x")
    case True
    define n where "n = \<lfloor>x\<rfloor>"
    have n1: "1 \<le> n" using True by (simp add: n_def le_floor_iff)
    then have npos: "0 < n" by simp
    have b1: "1 \<le> bitlen n" using npos bitlen_eq_zero_iff [of n] bitlen_nonneg [of n] by linarith
    from bitlen_bounds [OF npos]
    have lo: "(2::int) ^ nat (bitlen n - 1) \<le> n" and hi: "n < (2::int) ^ nat (bitlen n)" by auto
    have "(of_int ((2::int) ^ nat (bitlen n - 1)) :: rat) \<le> of_int n"
      using lo by (simp only: of_int_le_iff)
    also have "\<dots> \<le> x" by (simp add: n_def)
    finally have A: "(2::rat) ^ nat (bitlen n - 1) \<le> x" by simp
    have "n + 1 \<le> (2::int) ^ nat (bitlen n)" using hi by simp
    then have "(of_int (n + 1) :: rat) \<le> of_int ((2::int) ^ nat (bitlen n))"
      by (simp only: of_int_le_iff)
    moreover have "x < of_int (n + 1)" unfolding n_def by linarith
    ultimately have B: "x < (2::rat) ^ nat (bitlen n)" by simp
    have e: "ilog2 x = bitlen n - 1" using True by (simp add: ilog2_def n_def)
    show ?thesis using A B b1 unfolding e
      by (simp add: power_int_def)
  next
    case False
    then have x1: "x < 1" by simp
    define m where "m = \<lceil>1 / x\<rceil> - 1"
    have "1 < 1 / x" using assms x1 by (simp add: field_simps)
    then have "1 < \<lceil>1 / x\<rceil>" by (simp add: less_ceiling_iff)
    then have mpos: "0 < m" by (simp add: m_def)
    have b1: "1 \<le> bitlen m" using mpos bitlen_eq_zero_iff [of m] bitlen_nonneg [of m] by linarith
    from bitlen_bounds [OF mpos]
    have lo: "(2::int) ^ nat (bitlen m - 1) \<le> m" and hi: "m < (2::int) ^ nat (bitlen m)" by auto
    have my: "of_int m < 1 / x" "1 / x \<le> of_int m + 1"
      unfolding m_def by linarith+
    have "(of_int ((2::int) ^ nat (bitlen m - 1)) :: rat) \<le> of_int m"
      using lo by (simp only: of_int_le_iff)
    moreover have "(of_int ((2::int) ^ nat (bitlen m - 1)) :: rat) = 2 ^ nat (bitlen m - 1)"
      by simp
    ultimately have "(2::rat) ^ nat (bitlen m - 1) < 1 / x" using my by linarith
    then have "x * (2::rat) ^ nat (bitlen m - 1) < 1"
      using assms by (simp add: field_simps)
    then have B: "x < 1 / (2::rat) ^ nat (bitlen m - 1)"
      by (simp add: field_simps)
    have "m + 1 \<le> (2::int) ^ nat (bitlen m)" using hi by simp
    then have "(of_int (m + 1) :: rat) \<le> of_int ((2::int) ^ nat (bitlen m))"
      by (simp only: of_int_le_iff)
    moreover have "(of_int ((2::int) ^ nat (bitlen m)) :: rat) = 2 ^ nat (bitlen m)"
      by simp
    moreover have "(of_int (m + 1) :: rat) = of_int m + 1" by simp
    ultimately have "1 / x \<le> (2::rat) ^ nat (bitlen m)" using my by linarith
    then have "1 \<le> x * (2::rat) ^ nat (bitlen m)"
      using assms by (simp add: field_simps)
    then have A: "1 / (2::rat) ^ nat (bitlen m) \<le> x"
      by (simp add: field_simps)
    have e: "ilog2 x = - bitlen m" using False by (simp add: ilog2_def m_def)
    have p1: "(2::rat) powi (- bitlen m) = 1 / 2 ^ nat (bitlen m)"
      using b1 by (simp add: power_int_def field_simps)
    have p2: "(2::rat) powi (- bitlen m + 1) = 1 / 2 ^ nat (bitlen m - 1)"
    proof (cases "bitlen m = 1")
      case True then show ?thesis by simp
    next
      case False
      with b1 have "- bitlen m + 1 < 0" by simp
      then show ?thesis by (simp add: power_int_def field_simps) 
    qed
    show ?thesis unfolding e p1 p2 using A B by simp
  qed
  then show "2 powi (ilog2 x) \<le> x" and "x < 2 powi (ilog2 x + 1)" by auto
qed



lemma ulp_fexp: "ulp x = 2 powi (fexp x - 52)"
  by (simp add: ulp_def fexp_def)

lemma ulp_pos: "0 < ulp x"
  by (simp add: ulp_def)

lemma rhe_zero [simp]: "round_half_even 0 = 0"
  using rhe_of_int [of 0] by simp

lemma rnd_grid: "rnd x = of_int (round_half_even (x / ulp x)) * ulp x"
  by (simp add: rnd_def)

lemma rnd_nonneg: "0 \<le> x \<Longrightarrow> 0 \<le> rnd x"
proof -
  assume "0 \<le> x"
  then have "0 \<le> x / ulp x" using ulp_pos [of x] by simp
  then have "0 \<le> round_half_even (x / ulp x)" using rhe_ge_int [of 0] by simp
  then show ?thesis using ulp_pos [of x] by (simp add: rnd_grid)
qed

lemma rnd_error: "\<bar>rnd x - x\<bar> \<le> ulp x / 2"
proof -
  let ?u = "ulp x"
  let ?k = "round_half_even (x / ?u)"
  have u: "0 < ?u" by (rule ulp_pos)
  have "x / ?u - 1 / 2 \<le> of_int ?k" "of_int ?k \<le> x / ?u + 1 / 2"
    by (rule rhe_lower, rule rhe_upper)
  then have "(x / ?u - 1 / 2) * ?u \<le> of_int ?k * ?u" "of_int ?k * ?u \<le> (x / ?u + 1 / 2) * ?u"
    using u by (simp_all only: mult_le_cancel_right_pos)
  then have "x - ?u / 2 \<le> of_int ?k * ?u" "of_int ?k * ?u \<le> x + ?u / 2"
    using u by (simp_all add: algebra_simps)
  then show ?thesis unfolding rnd_grid by linarith
qed

lemma rnd_le_grid: "x \<le> of_int k * ulp x \<Longrightarrow> rnd x \<le> of_int k * ulp x"
proof -
  assume "x \<le> of_int k * ulp x"
  then have "x / ulp x \<le> of_int k" using ulp_pos [of x] by (simp add: field_simps)
  then have "round_half_even (x / ulp x) \<le> k" by (rule rhe_le_int)
  then have "(of_int (round_half_even (x / ulp x)) :: rat) \<le> of_int k" by simp
  then show ?thesis using ulp_pos [of x] by (simp add: rnd_grid)
qed

lemma rnd_ge_grid: "of_int k * ulp x \<le> x \<Longrightarrow> of_int k * ulp x \<le> rnd x"
proof -
  assume "of_int k * ulp x \<le> x"
  then have "of_int k \<le> x / ulp x" using ulp_pos [of x] by (simp add: field_simps)
  then have "k \<le> round_half_even (x / ulp x)" by (rule rhe_ge_int)
  then have "(of_int k :: rat) \<le> of_int (round_half_even (x / ulp x))" by simp
  then show ?thesis using ulp_pos [of x] by (simp add: rnd_grid)
qed

lemma pow2_grid:
  assumes "fexp x - 52 \<le> j"
  shows "(2::rat) powi j = of_int (2 ^ nat (j - (fexp x - 52))) * ulp x"
proof -
  have "(2::rat) powi j = 2 powi ((j - (fexp x - 52)) + (fexp x - 52))" by simp
  also have "\<dots> = 2 powi (j - (fexp x - 52)) * 2 powi (fexp x - 52)"
    by (rule power_int_add) simp
  also have "(2::rat) powi (j - (fexp x - 52)) = 2 ^ nat (j - (fexp x - 52))"
    using assms by (simp add: power_int_def)
  finally show ?thesis by (simp add: ulp_fexp)
qed

lemma ilog2_less: "0 < x \<Longrightarrow> x < 2 powi k \<Longrightarrow> ilog2 x < k"
proof (rule ccontr)
  assume x: "0 < x" "x < 2 powi k" and "\<not> ilog2 x < k"
  then have "k \<le> ilog2 x" by simp
  then have "(2::rat) powi k \<le> 2 powi (ilog2 x)" by (simp add: power_int_increasing)
  with ilog2_bounds(1) [OF x(1)] x(2) show False by simp
qed

lemma ilog2_ge: "0 < x \<Longrightarrow> 2 powi k \<le> x \<Longrightarrow> k \<le> ilog2 x"
proof (rule ccontr)
  assume x: "0 < x" "2 powi k \<le> x" and "\<not> k \<le> ilog2 x"
  then have "ilog2 x + 1 \<le> k" by simp
  then have "(2::rat) powi (ilog2 x + 1) \<le> 2 powi k" by (simp add: power_int_increasing)
  with ilog2_bounds(2) [OF x(1)] x(2) show False by simp
qed

lemma overflows_code [code]: "overflows r = (0 < r \<and> 1024 \<le> ilog2 r)"
proof (cases "0 < r")
  case True
  show ?thesis
  proof (cases "1024 \<le> ilog2 r")
    case True
    then have "(2::rat) powi 1024 \<le> 2 powi (ilog2 r)" by (simp only: power_int_increasing)
    also have "\<dots> \<le> r" by (rule ilog2_bounds(1) [OF \<open>0 < r\<close>])
    finally show ?thesis using True \<open>0 < r\<close> by (simp add: overflows_def)
  next
    case False
    have "\<not> (2::rat) powi 1024 \<le> r"
      using ilog2_ge [OF \<open>0 < r\<close>, of 1024] False by blast
    then show ?thesis using False by (simp add: overflows_def)
  qed
next
  case False
  then have "r \<le> 0" by simp
  moreover have "(0::rat) < 2 ^ 1024" by simp
  ultimately have "\<not> (2::rat) ^ 1024 \<le> r" by linarith
  then show ?thesis using False by (simp add: overflows_def)
qed

lemma ilog2_mono: "0 < x \<Longrightarrow> x \<le> y \<Longrightarrow> ilog2 x \<le> ilog2 y"
proof -
  assume x: "0 < x" "x \<le> y"
  then have "2 powi (ilog2 x) \<le> y" using ilog2_bounds(1) [of x] by simp
  with x show ?thesis by (intro ilog2_ge) simp_all
qed

lemma rnd_mono: 
  assumes "0 \<le> x" "x \<le> y"
  shows "rnd x \<le> rnd y"
proof (cases "x = 0")
  case True
  then show ?thesis using rnd_nonneg [of y] assms by (simp add: rnd_def)
next
  case False
  with assms have x: "0 < x" and y: "0 < y" by simp_all
  have le: "fexp x \<le> fexp y" using ilog2_mono [OF x assms(2)] by (simp add: fexp_def)
  show ?thesis
  proof (cases "fexp x = fexp y")
    case True
    then have u: "ulp y = ulp x" by (simp add: ulp_fexp)
    have "x / ulp x \<le> y / ulp x" using assms ulp_pos [of x] by (simp add: divide_right_mono)
    then have "round_half_even (x / ulp x) \<le> round_half_even (y / ulp x)" by (rule rhe_mono)
    then have "(of_int (round_half_even (x / ulp x)) :: rat) \<le> of_int (round_half_even (y / ulp x))"
      by simp
    then show ?thesis using ulp_pos [of x] by (simp add: rnd_grid u)
  next
    case False
    with le have lt: "fexp x + 1 \<le> fexp y" by simp
    then have ey: "fexp y = ilog2 y" by (auto simp: fexp_def max_def split: if_splits)
    have "x < 2 powi (ilog2 x + 1)" by (rule ilog2_bounds(2) [OF x])
    also have "\<dots> \<le> 2 powi (fexp x + 1)" by (simp add: fexp_def power_int_increasing)
    finally have "x \<le> 2 powi (fexp x + 1)" by simp
    then have "x \<le> of_int (2 ^ nat ((fexp x + 1) - (fexp x - 52))) * ulp x"
      using pow2_grid [of x "fexp x + 1"] by simp
    then have "rnd x \<le> of_int (2 ^ nat ((fexp x + 1) - (fexp x - 52))) * ulp x"
      by (rule rnd_le_grid)
    then have A: "rnd x \<le> 2 powi (fexp x + 1)"
      using pow2_grid [of x "fexp x + 1"] by simp
    have B: "(2::rat) powi (fexp x + 1) \<le> 2 powi (fexp y)"
      using lt by (simp add: power_int_increasing)
    have "2 powi (fexp y) \<le> y" using ilog2_bounds(1) [OF y] by (simp add: ey)
    then have "of_int (2 ^ nat (fexp y - (fexp y - 52))) * ulp y \<le> y"
      using pow2_grid [of y "fexp y"] by simp
    then have "of_int (2 ^ nat (fexp y - (fexp y - 52))) * ulp y \<le> rnd y"
      by (rule rnd_ge_grid)
    then have C: "2 powi (fexp y) \<le> rnd y"
      using pow2_grid [of y "fexp y"] by simp
    from A B C show ?thesis by linarith
  qed
qed

lemma fexp_le: "0 < x \<Longrightarrow> x < 2 powi k \<Longrightarrow> - 1022 \<le> k - 1 \<Longrightarrow> fexp x \<le> k - 1"
  using ilog2_less [of x k] by (simp add: fexp_def)

lemma ulp_le:
  assumes "0 < x" "x < 2 powi k" "- 1022 \<le> k - 1"
  shows "ulp x \<le> 2 powi (k - 53)"
proof -
  have "fexp x - 52 \<le> k - 53" using fexp_le [OF assms] by simp
  then show ?thesis unfolding ulp_fexp by (simp only: power_int_increasing)
qed

lemma int_grid:
  assumes "fexp x \<le> 52"
  shows "(of_int c :: rat) = of_int (c * 2 ^ nat (52 - fexp x)) * ulp x"
proof -
  have "(2::rat) powi 0 = of_int (2 ^ nat (0 - (fexp x - 52))) * ulp x"
    using assms by (intro pow2_grid) simp
  then have "(1::rat) = of_int (2 ^ nat (52 - fexp x)) * ulp x" by simp
  then have "(of_int c :: rat) = of_int c * (of_int (2 ^ nat (52 - fexp x)) * ulp x)" by simp
  then show ?thesis by (simp add: mult.assoc)
qed

lemma rnd_le_int:
  assumes "0 < x" "x < 2 powi 53" "x \<le> of_int c"
  shows "rnd x \<le> of_int c"
proof -
  have "fexp x \<le> 52" using fexp_le [OF assms(1,2)] by simp
  then have g: "(of_int c :: rat) = of_int (c * 2 ^ nat (52 - fexp x)) * ulp x"
    by (rule int_grid)
  have "x \<le> of_int (c * 2 ^ nat (52 - fexp x)) * ulp x"
    using assms(3) by (simp only: g [symmetric])
  then have "rnd x \<le> of_int (c * 2 ^ nat (52 - fexp x)) * ulp x" by (rule rnd_le_grid)
  also have "\<dots> = of_int c" by (rule g [symmetric])
  finally show ?thesis .
qed

lemma rnd_ge_int:
  assumes "0 < x" "x < 2 powi 53" "of_int c \<le> x"
  shows "of_int c \<le> rnd x"
proof -
  have "fexp x \<le> 52" using fexp_le [OF assms(1,2)] by simp
  then have g: "(of_int c :: rat) = of_int (c * 2 ^ nat (52 - fexp x)) * ulp x"
    by (rule int_grid)
  have "of_int (c * 2 ^ nat (52 - fexp x)) * ulp x \<le> x"
    using assms(3) by (simp only: g [symmetric])
  then have "of_int (c * 2 ^ nat (52 - fexp x)) * ulp x \<le> rnd x" by (rule rnd_ge_grid)
  then show ?thesis by (simp only: g [symmetric])
qed

lemma rnd_zero [simp]: "rnd 0 = 0"
  by (simp add: rnd_def)

lemma rnd_int_exact:
  assumes "0 \<le> n" "n < 2 ^ 53"
  shows "rnd (of_int n) = of_int n"
proof (cases "n = 0")
  case True
  then show ?thesis by simp
next
  case False
  with assms have p: "(0::rat) < of_int n" by simp
  have "(of_int n :: rat) < of_int (2 ^ 53)" using assms(2) by (simp only: of_int_less_iff)
  then have l: "(of_int n :: rat) < 2 powi 53" by simp
  from rnd_le_int [OF p l, of n] rnd_ge_int [OF p l, of n] show ?thesis by simp
qed

lemma rnd_le_pow2:
  assumes "0 \<le> x" "x \<le> 2 powi k" "- 1022 \<le> k"
  shows "rnd x \<le> 2 powi k"
proof (cases "x = 0")
  case True
  then show ?thesis by simp
next
  case False
  with assms have p: "0 < x" by simp
  have "x < 2 powi (k + 1)"
  proof -
    have "(2::rat) powi k < 2 powi (k + 1)" by (simp only: power_int_strict_increasing)
    with assms(2) show ?thesis by simp
  qed
  then have "fexp x \<le> k" using fexp_le [OF p, of "k + 1"] assms(3) by simp
  then have "(2::rat) powi k = of_int (2 ^ nat (k - (fexp x - 52))) * ulp x"
    by (intro pow2_grid) simp
  with assms(2) rnd_le_grid [of x "2 ^ nat (k - (fexp x - 52))"] show ?thesis by simp
qed

lemma not_overflows_le:
  assumes "r \<le> 2 powi k" "k < 1024"
  shows "\<not> overflows r"
proof -
  have "(2::rat) powi k < 2 powi 1024" using assms(2) by (simp only: power_int_strict_increasing)
  with assms(1) have "r < 2 ^ 1024" by simp
  then show ?thesis by (simp add: overflows_def)
qed

section \<open>The result of a single calculation\<close>

lemma office_general_entry:
  "map_of PARKING_RATIOS ''office_general'' =
     Some (entry 3 ''1,000 SF'' ''3 spaces per 1,000 SF'')"
  by (simp add: PARKING_RATIOS_def)

lemma calculate_parking_fields:
  assumes "calculate_parking name gross units_arg seats employees custom_ratio = Inr r"
  shows "total_spaces r = required_spaces r"
    and "calculate_ada_spaces (required_spaces r) = Inr (ada_spaces r)"
    and "gross_sf r = gross" and "units r = Some units_arg"
  using assms
  by (auto simp: calculate_parking_def Let_def and_then_def
      split: option.splits sum.splits prod.splits)

lemma scan_ada_table:
  "scan_ada ADA_REQUIREMENTS n =
     (if n \<le> 25 then Some 1 else if n \<le> 50 then Some 2 else if n \<le> 75 then Some 3
      else if n \<le> 100 then Some 4 else if n \<le> 150 then Some 5 else if n \<le> 200 then Some 6
      else if n \<le> 300 then Some 7 else if n \<le> 400 then Some 8 else if n \<le> 500 then Some 9
      else if n \<le> 1000 then Some 2 else None)"
  by (simp add: ADA_REQUIREMENTS_def)

lemma calculate_ada_spaces_above_1000:
  assumes "1000 < n"
  shows "calculate_ada_spaces n =
     (if overflows (rnd (of_int (n - 1000) / 100)) then Inl OverflowError
      else Inr (20 + \<lceil>rnd (of_int (n - 1000) / 100)\<rceil>))"
  using assms
  by (simp add: calculate_ada_spaces_def scan_ada_table and_then_def int_truediv_def Let_def)

lemma calculate_ada_spaces_sign:
  assumes "calculate_ada_spaces n = Inr a"
  shows "(1 \<le> n \<longrightarrow> 1 \<le> a) \<and> (n \<le> 0 \<longrightarrow> a = 0)"
proof (cases "1000 < n")
  case True
  have "0 \<le> rnd (of_int (n - 1000) / 100)" using True by (intro rnd_nonneg) simp
  then have "0 \<le> \<lceil>rnd (of_int (n - 1000) / 100)\<rceil>" by (simp add: le_ceiling_iff)
  with assms True show ?thesis
    by (auto simp: calculate_ada_spaces_above_1000 split: if_splits)
next
  case False
  with assms show ?thesis
    by (auto simp: calculate_ada_spaces_def scan_ada_table split: if_splits)
qed

lemma basis_table_eval:
  "basis_table =
    [(''single_family'', DwellingUnit), (''multi_family'', DwellingUnit),
     (''townhouse'', DwellingUnit), (''senior_housing'', DwellingUnit),
     (''retail'', ThousandSF), (''shopping_center'', ThousandSF), (''restaurant'', ThousandSF),
     (''fast_food'', ThousandSF), (''bank'', ThousandSF), (''office_general'', ThousandSF),
     (''office_medical'', ThousandSF), (''office_dental'', ThousandSF),
     (''warehouse'', ThousandSF), (''manufacturing'', ThousandSF), (''flex_space'', ThousandSF),
     (''church'', Seat), (''school_elementary'', Room), (''school_high'', Room),
     (''daycare'', Unrecognized), (''gym_fitness'', ThousandSF), (''hotel'', Room)]"
  by (simp add: basis_table_def PARKING_RATIOS_def entry_def dispatch_def)

lemma basis_table_lookup:
  "map_of PARKING_RATIOS name = Some info
     \<Longrightarrow> map_of basis_table name = Some (dispatch (entry_unit info))"
  by (simp add: basis_table_def map_of_map)

lemma dispatch_table:
  assumes "map_of PARKING_RATIOS name = Some info"
  shows "dispatch (entry_unit info) \<noteq> Classroom"
    and "dispatch (entry_unit info) = Unrecognized \<longleftrightarrow> name = ''daycare''"
  using basis_table_lookup [OF assms] unfolding basis_table_eval
  by (auto split: if_splits)

lemma unknown_use_as_office_general:
  assumes "map_of PARKING_RATIOS name = None"
  shows "calculate_parking name gross units_arg seats employees custom_ratio =
         map_sum id (with_warning name)
           (calculate_parking ''office_general'' gross units_arg seats employees custom_ratio)"
  using assms
  by (simp add: calculate_parking_def office_general_entry Let_def and_then_def with_warning_def
      split: sum.splits prod.splits)

lemma ada_step_rows:
  "ada_step n =
     (if n \<le> 0 then 0 else if n \<le> 25 then 1 else if n \<le> 50 then 2 else if n \<le> 75 then 3
      else if n \<le> 100 then 4 else if n \<le> 150 then 5 else if n \<le> 200 then 6
      else if n \<le> 300 then 7 else if n \<le> 400 then 8 else if n \<le> 500 then 9
      else if n \<le> 1000 then 2 else 20 + \<lceil>(of_int n - 1000) / (100::rat)\<rceil>)"
  by (simp add: ada_step_def ADA_REQUIREMENTS_def)

lemma ceiling_rnd_hundredths:
  assumes "0 < k" "k \<le> 100 * 2 ^ 47"
  shows "\<not> overflows (rnd (of_int k / 100))"
    and "\<lceil>rnd (of_int k / 100)\<rceil> = \<lceil>(of_int k :: rat) / 100\<rceil>"
proof -
  define x :: rat where "x = of_int k / 100"
  define c where "c = \<lceil>x\<rceil>"
  have xpos: "0 < x" using assms(1) by (simp add: x_def)
  have "(of_int k :: rat) \<le> of_int (100 * 2 ^ 47)" using assms(2) by (simp only: of_int_le_iff)
  then have xle: "x \<le> 2 powi 47" by (simp add: x_def)
  have x53: "x < 2 powi 53"
  proof -
    have "(2::rat) powi 47 < 2 powi 53" by simp
    with xle show ?thesis by simp
  qed
  from rnd_le_pow2 [OF _ xle] xpos have "rnd x \<le> 2 powi 47" by simp
  then show "\<not> overflows (rnd (of_int k / 100))"
    unfolding x_def by (rule not_overflows_le) simp
  have up: "rnd x \<le> of_int c"
    using xpos x53 by (rule rnd_le_int) (simp add: c_def)
  have low: "of_int c - 1 < rnd x"
  proof (cases "x = 2 powi 47")
    case True
    have "rnd (of_int (2 ^ 47)) = (of_int (2 ^ 47) :: rat)" by (rule rnd_int_exact) simp_all
    then have "rnd x = x" using True by simp
    moreover have "of_int c - 1 < x" unfolding c_def by linarith
    ultimately show ?thesis by simp
  next
    case False
    with xle have xlt: "x < 2 powi 47" by simp
    have "ulp x \<le> 2 powi (47 - 53)" using xpos xlt by (rule ulp_le) simp
    then have u: "ulp x \<le> 1 / 64" by simp
    have "c - 1 < \<lceil>x\<rceil>" by (simp add: c_def)
    then have "of_int (c - 1) < x" by (simp only: less_ceiling_iff)
    then have "of_int (c - 1) * 100 < (of_int k :: rat)" by (simp add: x_def)
    then have "(of_int ((c - 1) * 100) :: rat) < of_int k" by simp
    then have "(c - 1) * 100 < k" by (simp only: of_int_less_iff)
    then have "(c - 1) * 100 + 1 \<le> k" by simp
    then have "(of_int ((c - 1) * 100 + 1) :: rat) \<le> of_int k" by (simp only: of_int_le_iff)
    then have "of_int c - 1 + 1 / 100 \<le> x" by (simp add: x_def)
    moreover have "\<bar>rnd x - x\<bar> \<le> ulp x / 2" by (rule rnd_error)
    ultimately show ?thesis using u by linarith
  qed
  from up low have "\<lceil>rnd x\<rceil> = c" by (intro ceiling_unique) simp_all
  then show "\<lceil>rnd (of_int k / 100)\<rceil> = \<lceil>(of_int k :: rat) / 100\<rceil>"
    by (simp add: x_def c_def)
qed

lemma float_085:
  "float_literal (85 / 100) = Finite False (7656119366529843 / 9007199254740992)"
  by code_simp

lemma ceiling_rnd_085:
  assumes "0 \<le> t" "t \<le> 662294062848602"
  shows "\<not> overflows (rnd (of_int t * (7656119366529843 / 9007199254740992)))"
    and "\<lceil>rnd (of_int t * (7656119366529843 / 9007199254740992))\<rceil>
           = \<lceil>(of_int t :: rat) * 85 / 100\<rceil>"
proof -
  define p :: rat where "p = of_int t * (7656119366529843 / 9007199254740992)"
  define e :: rat where "e = of_int t / 45035996273704960"
  define c where "c = \<lceil>(of_int t :: rat) * 85 / 100\<rceil>"
  have pe: "p = of_int t * 85 / 100 - e" by (simp add: p_def e_def)
  have t0: "(0::rat) \<le> of_int t" using assms(1) by simp
  have "(of_int t :: rat) \<le> of_int 662294062848602" using assms(2) by (simp only: of_int_le_iff)
  then have tB: "(of_int t :: rat) \<le> 662294062848602" by simp
  have p0: "0 \<le> p" using t0 by (simp add: p_def)
  have p49: "p \<le> 2 powi 49" using t0 tB by (simp add: p_def)
  from rnd_le_pow2 [OF p0 p49] have "rnd p \<le> 2 powi 49" by simp
  then show "\<not> overflows (rnd (of_int t * (7656119366529843 / 9007199254740992)))"
    unfolding p_def by (rule not_overflows_le) simp
  have "\<lceil>rnd p\<rceil> = c"
  proof (cases "t = 0")
    case True
    then show ?thesis by (simp add: p_def c_def)
  next
    case False
    with assms(1) have "1 \<le> t" by simp
    then have "(of_int 1 :: rat) \<le> of_int t" by (simp only: of_int_le_iff)
    then have t1: "(1::rat) \<le> of_int t" by simp
    have ppos: "0 < p" using t1 by (simp add: p_def)
    have plt: "p < 2 powi 49" using t1 tB by (simp add: p_def)
    have p53: "p < 2 powi 53"
    proof -
      have "(2::rat) powi 49 < 2 powi 53" by simp
      with plt show ?thesis by simp
    qed
    have epos: "0 < e" using t1 by (simp add: e_def)
    have "p \<le> of_int t * 85 / 100" using epos by (simp add: pe)
    also have "\<dots> \<le> of_int c" by (simp add: c_def)
    finally have "rnd p \<le> of_int c" using ppos p53 by (intro rnd_le_int)
    moreover have "of_int c - 1 < rnd p"
    proof -
      have "ulp p \<le> 2 powi (49 - 53)" using ppos plt by (rule ulp_le) simp
      then have u: "ulp p \<le> 1 / 16" by simp
      have er: "\<bar>rnd p - p\<bar> \<le> ulp p / 2" by (rule rnd_error)
      have "c - 1 < \<lceil>(of_int t :: rat) * 85 / 100\<rceil>" by (simp add: c_def)
      then have "of_int (c - 1) < (of_int t :: rat) * 85 / 100" by (simp only: less_ceiling_iff)
      then have "(of_int ((c - 1) * 20) :: rat) < of_int (t * 17)" by simp
      then have "(c - 1) * 20 < t * 17" by (simp only: of_int_less_iff)
      then have "(c - 1) * 20 + 1 \<le> t * 17" by simp
      then have "(of_int ((c - 1) * 20 + 1) :: rat) \<le> of_int (t * 17)"
        by (simp only: of_int_le_iff)
      then have lo: "of_int c - 1 + 1 / 20 \<le> (of_int t :: rat) * 85 / 100" by simp
      have eB: "e \<le> 3 / 200" using tB by (simp add: e_def)
      from lo eB u er show ?thesis unfolding pe by linarith
    qed
    ultimately show ?thesis by (intro ceiling_unique) simp_all
  qed
  then show "\<lceil>rnd (of_int t * (7656119366529843 / 9007199254740992))\<rceil>
           = \<lceil>(of_int t :: rat) * 85 / 100\<rceil>"
    by (simp add: p_def c_def)
qed

lemma shared_potential_exact_nonneg:
  assumes "0 \<le> t" "t \<le> 662294062848602"
  shows "and_then (py_mul (PInt t) (PFloat (float_literal (85 / 100)))) math_ceil
           = Inr \<lceil>(of_int t :: rat) * 85 / 100\<rceil>"
proof -
  have "t < 2 ^ 53" using assms(2) by simp
  then have r: "rnd (of_int t) = (of_int t :: rat)" using assms(1) by (intro rnd_int_exact)
  have "(of_int t :: rat) < of_int (2 ^ 53)" using \<open>t < 2 ^ 53\<close> by (simp only: of_int_less_iff)
  then have "(of_int t :: rat) \<le> 2 powi 53" by simp
  then have o: "\<not> overflows (of_int t)" by (rule not_overflows_le) simp
  have a: "\<bar>t\<bar> = t" using assms(1) by simp
  have i: "int_to_float t = Inr (Finite False (of_int t))"
    using assms(1) r o by (simp add: int_to_float_def a)
  have f: "float_literal (17 / 20) = Finite False (7656119366529843 / 9007199254740992)"
    using float_085 by simp
  show ?thesis
    using ceiling_rnd_085 [OF assms]
    by (simp add: f i and_then_def pack_def Let_def)
qed

lemma ulp_gt:
  assumes "0 < x"
  shows "x < 2 ^ 53 * ulp x"
proof -
  have "x < 2 powi (ilog2 x + 1)" by (rule ilog2_bounds(2) [OF assms])
  also have "\<dots> \<le> 2 powi (fexp x + 1)" by (simp add: fexp_def power_int_increasing)
  also have "\<dots> = 2 powi (53 + (fexp x - 52))"
  proof -
    have "fexp x + 1 = 53 + (fexp x - 52)" by simp
    then show ?thesis by (simp only:)
  qed
  also have "\<dots> = 2 powi 53 * 2 powi (fexp x - 52)" by (rule power_int_add) simp
  finally show ?thesis by (simp add: ulp_fexp)
qed

lemma rnd_ge_int_near:
  assumes "0 < x" "x < 2 powi 53" "of_int c - x < ulp x / 2"
  shows "of_int c \<le> rnd x"
proof -
  define K where "K = c * 2 ^ nat (52 - fexp x)"
  have "fexp x \<le> 52" using fexp_le [OF assms(1,2)] by simp
  then have g: "(of_int c :: rat) = of_int K * ulp x" unfolding K_def by (rule int_grid)
  have u: "0 < ulp x" by (rule ulp_pos)
  have "of_int K * ulp x - x < ulp x / 2" using assms(3) by (simp only: g)
  then have "(of_int K - 1 / 2) * ulp x < x" by (simp add: algebra_simps)
  then have "of_int K - 1 / 2 < x / ulp x" using u by (simp add: pos_less_divide_eq)
  moreover have "x / ulp x - 1 / 2 \<le> of_int (round_half_even (x / ulp x))" by (rule rhe_lower)
  ultimately have "(of_int K :: rat) - 1 < of_int (round_half_even (x / ulp x))" by linarith
  then have "(of_int (K - 1) :: rat) < of_int (round_half_even (x / ulp x))" by simp
  then have "K - 1 < round_half_even (x / ulp x)" by (simp only: of_int_less_iff)
  then have "K \<le> round_half_even (x / ulp x)" by simp
  then have "(of_int K :: rat) \<le> of_int (round_half_even (x / ulp x))" by (simp only: of_int_le_iff)
  then have "of_int K * ulp x \<le> rnd x" using u by (simp add: rnd_grid)
  then show ?thesis by (simp only: g)
qed

lemma floor_rnd_085:
  assumes "1 \<le> a" "a \<le> 662294062848602"
  shows "\<not> overflows (rnd (of_int a * (7656119366529843 / 9007199254740992)))"
    and "\<lfloor>rnd (of_int a * (7656119366529843 / 9007199254740992))\<rfloor>
           = \<lfloor>(of_int a :: rat) * 85 / 100\<rfloor>"
proof -
  define p :: rat where "p = of_int a * (7656119366529843 / 9007199254740992)"
  define e :: rat where "e = of_int a / 45035996273704960"
  define M where "M = \<lfloor>(of_int a :: rat) * 85 / 100\<rfloor>"
  have pe: "p = of_int a * 85 / 100 - e" by (simp add: p_def e_def)
  have "(of_int 1 :: rat) \<le> of_int a" using assms(1) by (simp only: of_int_le_iff)
  then have a1: "(1::rat) \<le> of_int a" by simp
  have "(of_int a :: rat) \<le> of_int 662294062848602" using assms(2) by (simp only: of_int_le_iff)
  then have aB: "(of_int a :: rat) \<le> 662294062848602" by simp
  have ppos: "0 < p" using a1 by (simp add: p_def)
  have plt: "p < 2 powi 49" using a1 aB by (simp add: p_def)
  have p53: "p < 2 powi 53"
  proof -
    have "(2::rat) powi 49 < 2 powi 53" by simp
    with plt show ?thesis by simp
  qed
  from rnd_le_pow2 [of p 49] ppos plt have "rnd p \<le> 2 powi 49" by simp
  then show "\<not> overflows (rnd (of_int a * (7656119366529843 / 9007199254740992)))"
    unfolding p_def by (rule not_overflows_le) simp
  have epos: "0 < e" using a1 by (simp add: e_def)
  have eB: "e \<le> 3 / 200" using aB by (simp add: e_def)
  have "ulp p \<le> 2 powi (49 - 53)" using ppos plt by (rule ulp_le) simp
  then have u: "ulp p \<le> 1 / 16" by simp
  have er: "\<bar>rnd p - p\<bar> \<le> ulp p / 2" by (rule rnd_error)
  have "\<lfloor>(of_int a :: rat) * 85 / 100\<rfloor> < M + 1" by (simp add: M_def)
  then have "(of_int a :: rat) * 85 / 100 < of_int (M + 1)" by (simp only: floor_less_iff)
  then have "(of_int (a * 17) :: rat) < of_int ((M + 1) * 20)" by simp
  then have "a * 17 < (M + 1) * 20" by (simp only: of_int_less_iff)
  then have "a * 17 \<le> M * 20 + 19" by simp
  then have "(of_int (a * 17) :: rat) \<le> of_int (M * 20 + 19)" by (simp only: of_int_le_iff)
  then have hi: "(of_int a :: rat) * 85 / 100 \<le> of_int M + 19 / 20" by simp
  have up: "rnd p < of_int M + 1" using hi epos u er unfolding pe by linarith
  have Mle: "of_int M \<le> (of_int a :: rat) * 85 / 100" unfolding M_def by (rule of_int_floor_le)
  then have "(of_int M :: rat) * 20 \<le> of_int a * 17" by linarith
  then have "(of_int (M * 20) :: rat) \<le> of_int (a * 17)" by simp
  then have m17: "M * 20 \<le> a * 17" by (simp only: of_int_le_iff)
  have low: "of_int M \<le> rnd p"
  proof (cases "M * 20 = a * 17")
    case True
    then have "(of_int (M * 20) :: rat) = of_int (a * 17)" by simp
    then have eq: "(of_int a :: rat) * 85 / 100 = of_int M" by simp
    then have "(of_int M :: rat) * 20 = of_int a * 17" by simp
    then have aM: "(of_int a :: rat) = of_int M * 20 / 17" by simp
    have f3: "e * 38280596832649216 = of_int M" unfolding e_def aM by simp
    have "p < 2 ^ 53 * ulp p" using ppos by (rule ulp_gt)
    then have f1: "p < 9007199254740992 * ulp p" by simp
    have f2: "p = of_int M - e" by (simp add: pe eq)
    have "of_int M - p < ulp p / 2" using f1 f2 f3 epos by linarith
    with ppos p53 show ?thesis by (rule rnd_ge_int_near)
  next
    case False
    with m17 have "M * 20 + 1 \<le> a * 17" by simp
    then have "(of_int (M * 20 + 1) :: rat) \<le> of_int (a * 17)" by (simp only: of_int_le_iff)
    then have "of_int M + 1 / 20 \<le> (of_int a :: rat) * 85 / 100" by simp
    then have "of_int M \<le> p" using eB unfolding pe by linarith
    with ppos p53 show ?thesis by (rule rnd_ge_int)
  qed
  from low up have "\<lfloor>rnd p\<rfloor> = M" by (intro floor_unique)
  then show "\<lfloor>rnd (of_int a * (7656119366529843 / 9007199254740992))\<rfloor>
           = \<lfloor>(of_int a :: rat) * 85 / 100\<rfloor>"
    by (simp add: p_def M_def)
qed

lemma shared_potential_exact_neg:
  assumes "t < 0" "- 662294062848602 \<le> t"
  shows "and_then (py_mul (PInt t) (PFloat (float_literal (85 / 100)))) math_ceil
           = Inr \<lceil>(of_int t :: rat) * 85 / 100\<rceil>"
proof -
  define a where "a = - t"
  have a: "1 \<le> a" "a \<le> 662294062848602" "\<bar>t\<bar> = a" "t = - a" using assms by (simp_all add: a_def)
  have "a < 2 ^ 53" using a(2) by simp
  then have r: "rnd (of_int a) = (of_int a :: rat)" using a(1) by (intro rnd_int_exact) simp_all
  have "(of_int a :: rat) < of_int (2 ^ 53)" using \<open>a < 2 ^ 53\<close> by (simp only: of_int_less_iff)
  then have "(of_int a :: rat) \<le> 2 powi 53" by simp
  then have o: "\<not> overflows (of_int a)" by (rule not_overflows_le) simp
  have i: "int_to_float t = Inr (Finite True (of_int a))"
    using assms(1) r o by (simp add: int_to_float_def a(3))
  have f: "float_literal (17 / 20) = Finite False (7656119366529843 / 9007199254740992)"
    using float_085 by simp
  have c: "\<lceil>(of_int t :: rat) * 85 / 100\<rceil> = - \<lfloor>(of_int a :: rat) * 85 / 100\<rfloor>"
    unfolding ceiling_def a(4) by simp
  show ?thesis
    unfolding c using floor_rnd_085 [OF a(1,2)]
    by (simp add: f i and_then_def pack_def Let_def)
qed

lemma shared_potential_exact:
  assumes "\<bar>t\<bar> \<le> 662294062848602"
  shows "and_then (py_mul (PInt t) (PFloat (float_literal (85 / 100)))) math_ceil
           = Inr \<lceil>(of_int t :: rat) * 85 / 100\<rceil>"
proof (cases "0 \<le> t")
  case True
  with assms show ?thesis by (intro shared_potential_exact_nonneg) simp_all
next
  case False
  with assms show ?thesis by (intro shared_potential_exact_neg) simp_all
qed

lemma mixed_loop_Inr:
  "mixed_loop us rs t = Inr (rs', t') \<longleftrightarrow>
     (\<exists>new. map calculate_use us = map Inr new \<and> rs' = rs @ new
        \<and> t' = t + sum_list (map required_spaces new))"
proof (induction us arbitrary: rs t)
  case Nil
  then show ?case by auto
next
  case (Cons u us)
  show ?case
  proof (cases "calculate_use u")
    case (Inl e)
    then show ?thesis by (auto simp: and_then_def map_eq_Cons_conv)
  next
    case (Inr r)
    show ?thesis
    proof
      assume "mixed_loop (u # us) rs t = Inr (rs', t')"
      then have "mixed_loop us (rs @ [r]) (t + required_spaces r) = Inr (rs', t')"
        using Inr by (simp add: and_then_def)
      then obtain new where n: "map calculate_use us = map Inr new" "rs' = (rs @ [r]) @ new"
        "t' = (t + required_spaces r) + sum_list (map required_spaces new)"
        unfolding Cons.IH by blast
      then have "map calculate_use (u # us) = map Inr (r # new) \<and> rs' = rs @ (r # new)
          \<and> t' = t + sum_list (map required_spaces (r # new))"
        using Inr by simp
      then show "\<exists>new. map calculate_use (u # us) = map Inr new \<and> rs' = rs @ new
          \<and> t' = t + sum_list (map required_spaces new)" by blast
    next
      assume "\<exists>new. map calculate_use (u # us) = map Inr new \<and> rs' = rs @ new
          \<and> t' = t + sum_list (map required_spaces new)"
      then obtain new where n: "map calculate_use (u # us) = map Inr new" "rs' = rs @ new"
        "t' = t + sum_list (map required_spaces new)" by blast
      from n(1) Inr obtain new' where n': "new = r # new'" "map calculate_use us = map Inr new'"
        by (cases new) auto
      have "mixed_loop us (rs @ [r]) (t + required_spaces r) = Inr (rs', t')"
        unfolding Cons.IH using n n' by auto
      then show "mixed_loop (u # us) rs t = Inr (rs', t')"
        using Inr by (simp add: and_then_def)
    qed
  qed
qed

lemma calculate_mixed_use_Inr:
  assumes "calculate_mixed_use uses = Inr m"
  shows "map calculate_use uses = map Inr (individual_calculations m)"
    and "total_without_sharing m = sum_list (map required_spaces (individual_calculations m))"
    and "potential_reduction m = total_without_sharing m - shared_parking_potential m"
    and "calculate_ada_spaces (shared_parking_potential m) = Inr (ada_total m)"
    and "and_then (py_mul (PInt (total_without_sharing m)) (PFloat (float_literal (85 / 100))))
           math_ceil = Inr (shared_parking_potential m)"
proof -
  from assms obtain results total_required where
    l: "mixed_loop uses [] 0 = Inr (results, total_required)"
    by (cases "mixed_loop uses [] 0") (auto simp: calculate_mixed_use_def and_then_def)
  from assms l obtain p where
    p: "py_mul (PInt total_required) (PFloat (float_literal (85 / 100))) = Inr p"
    by (cases "py_mul (PInt total_required) (PFloat (float_literal (85 / 100)))")
      (auto simp: calculate_mixed_use_def and_then_def)
  from assms l p obtain shared where s: "math_ceil p = Inr shared"
    by (cases "math_ceil p") (auto simp: calculate_mixed_use_def and_then_def)
  from assms l p s obtain ada where a: "calculate_ada_spaces shared = Inr ada"
    by (cases "calculate_ada_spaces shared") (auto simp: calculate_mixed_use_def and_then_def)
  from assms l p s a have m: "m = \<lparr>individual_calculations = results,
          total_without_sharing = total_required,
          shared_parking_potential = shared,
          potential_reduction = total_required - shared,
          ada_total = ada,
          mixed_notes =
            [''Shared parking analysis based on ULI Shared Parking methodology'',
             ''Actual reduction requires detailed time-of-day analysis'',
             ''Local jurisdiction approval required for shared parking credits'']\<rparr>"
    by (simp add: calculate_mixed_use_def and_then_def)
  from l have r: "map calculate_use uses = map Inr results"
    "total_required = sum_list (map required_spaces results)"
    unfolding mixed_loop_Inr by auto
  show "map calculate_use uses = map Inr (individual_calculations m)" using r m by simp
  show "total_without_sharing m = sum_list (map required_spaces (individual_calculations m))"
    using r m by simp
  show "potential_reduction m = total_without_sharing m - shared_parking_potential m"
    using m by simp
  show "calculate_ada_spaces (shared_parking_potential m) = Inr (ada_total m)" using a m by simp
  show "and_then (py_mul (PInt (total_without_sharing m)) (PFloat (float_literal (85 / 100))))
           math_ceil = Inr (shared_parking_potential m)"
    using p s m by (simp add: and_then_def)
qed

lemma calculate_ada_spaces_exact:
  assumes "n \<le> 14073748835533800"
  shows "calculate_ada_spaces n = Inr (ada_step n)"
proof (cases "1000 < n")
  case True
  have k: "0 < n - 1000" "n - 1000 \<le> 100 * 2 ^ 47" using True assms by simp_all
  from ceiling_rnd_hundredths [OF k] True show ?thesis
    by (simp add: calculate_ada_spaces_above_1000 ada_step_rows)
next
  case False
  then show ?thesis
    by (simp add: calculate_ada_spaces_def scan_ada_table ada_step_rows)
qed

lemma calculate_mixed_use_returns:
  assumes "map calculate_use uses = map Inr rs"
    and "\<bar>sum_list (map required_spaces rs)\<bar> \<le> 662294062848602"
  shows "\<exists>m. calculate_mixed_use uses = Inr m"
proof -
  define t where "t = sum_list (map required_spaces rs)"
  define s where "s = \<lceil>(of_int t :: rat) * 85 / 100\<rceil>"
  have l: "mixed_loop uses [] 0 = Inr (rs, t)"
    unfolding mixed_loop_Inr t_def using assms(1) by simp
  have c: "and_then (py_mul (PInt t) (PFloat (float_literal (85 / 100)))) math_ceil = Inr s"
    unfolding s_def using assms(2) by (intro shared_potential_exact) (simp add: t_def)
  have "(of_int t :: rat) \<le> of_int 662294062848602"
    using assms(2) unfolding t_def [symmetric] by simp
  then have "(of_int t :: rat) * 85 / 100 \<le> of_int 14073748835533800" by simp
  then have "s \<le> 14073748835533800" unfolding s_def by (simp only: ceiling_le_iff)
  then have a: "calculate_ada_spaces s = Inr (ada_step s)" by (rule calculate_ada_spaces_exact)
  from c obtain p where p: "py_mul (PInt t) (PFloat (float_literal (85 / 100))) = Inr p"
    "math_ceil p = Inr s"
    by (cases "py_mul (PInt t) (PFloat (float_literal (85 / 100)))") (auto simp: and_then_def)
  show ?thesis
    using l p a by (simp add: calculate_mixed_use_def and_then_def)
qed

lemma rnd_small:
  assumes "0 \<le> x" "x \<le> 2 powi k" "- 1022 \<le> k" "k < 1024"
  shows "rnd x \<le> 2 powi k" and "\<not> overflows (rnd x)"
proof -
  show "rnd x \<le> 2 powi k" using assms(1-3) by (rule rnd_le_pow2)
  then show "\<not> overflows (rnd x)" using assms(4) by (rule not_overflows_le)
qed

lemma int_truediv_returns:
  assumes "0 < b" "of_int \<bar>a\<bar> / of_int b \<le> (2::rat) powi k" "- 1022 \<le> k" "k < 1024"
  shows "int_truediv a b = Inr (Finite (a < 0) (rnd (of_int \<bar>a\<bar> / of_int b)))"
proof -
  have "(0::rat) \<le> of_int \<bar>a\<bar> / of_int b" using assms(1) by simp
  from rnd_small(2) [OF this assms(2-4)] assms(1) show ?thesis
    by (simp add: int_truediv_def Let_def)
qed

lemma calculate_ada_spaces_returns:
  assumes "n \<le> 2 ^ 1023"
  shows "\<exists>a. calculate_ada_spaces n = Inr a \<and> 0 \<le> a \<and> a \<le> 2 ^ 1023"
proof (cases "1000 < n")
  case False
  then show ?thesis
    by (simp add: calculate_ada_spaces_def scan_ada_table)
next
  case True
  define x :: rat where "x = of_int (n - 1000) / 100"
  have x0: "0 \<le> x" using True by (simp add: x_def)
  have "(of_int n :: rat) \<le> of_int (2 ^ 1023)" using assms by (simp only: of_int_le_iff)
  then have "x \<le> 2 ^ 1023 / 100" by (simp add: x_def)
  also have "\<dots> \<le> 2 powi 1017" by simp
  finally have xk: "x \<le> 2 powi 1017" .
  from rnd_small [OF x0 xk] have r: "rnd x \<le> 2 powi 1017" "\<not> overflows (rnd x)" by simp_all
  have "rnd x \<le> of_int (2 ^ 1017)" using r(1) by simp
  then have c: "\<lceil>rnd x\<rceil> \<le> 2 ^ 1017" by (simp only: ceiling_le_iff)
  have "0 \<le> rnd x" using x0 by (rule rnd_nonneg)
  then have c0: "0 \<le> \<lceil>rnd x\<rceil>" by (simp add: le_ceiling_iff)
  have "calculate_ada_spaces n = Inr (20 + \<lceil>rnd x\<rceil>)"
    using True r(2) by (simp add: calculate_ada_spaces_above_1000 x_def)
  moreover have "20 + \<lceil>rnd x\<rceil> \<le> 2 ^ 1023" using c by simp
  ultimately show ?thesis using c0 by simp
qed

lemma calculate_van_accessible_returns:
  assumes "0 \<le> a" "a \<le> 2 ^ 1023"
  shows "\<exists>v. calculate_van_accessible a = Inr v"
proof -
  have "(of_int a :: rat) \<le> of_int (2 ^ 1023)" using assms(2) by (simp only: of_int_le_iff)
  then have "of_int \<bar>a\<bar> / of_int 6 \<le> (2::rat) powi 1023" using assms(1) by simp
  then have "int_truediv a 6 = Inr (Finite (a < 0) (rnd (of_int \<bar>a\<bar> / of_int 6)))"
    by (rule int_truediv_returns [where k = 1023, rotated]) simp_all
  then show ?thesis by (simp add: calculate_van_accessible_def and_then_def)
qed

lemma math_ceil_bounded:
  assumes "0 \<le> m" "m \<le> 2 powi 1023"
  shows "\<exists>q. math_ceil (PFloat (Finite s m)) = Inr q \<and> q \<le> 2 ^ 1023"
proof -
  have m: "m \<le> of_int (2 ^ 1023)" using assms(2) by simp
  then have "\<lceil>m\<rceil> \<le> 2 ^ 1023" by (simp only: ceiling_le_iff)
  moreover have "- \<lfloor>m\<rfloor> \<le> 2 ^ 1023"
  proof -
    have "0 \<le> \<lfloor>m\<rfloor>" using assms(1) by simp
    moreover have "(0::int) \<le> 2 ^ 1023" by simp
    ultimately show ?thesis by linarith
  qed
  ultimately show ?thesis by simp
qed

lemma sf_units_returns:
  assumes "finite_num gross"
  shows "\<exists>s m. py_truediv gross (PInt 1000) = Inr (PFloat (Finite s m)) \<and> 0 \<le> m
           \<and> m \<le> 2 powi 1015"
proof (cases gross)
  case (PInt n)
  have "\<not> overflows (of_int \<bar>n\<bar>)" using assms PInt by simp
  then have "(of_int \<bar>n\<bar> :: rat) \<le> 2 ^ 1024" by (simp add: overflows_def)
  then have "(of_int \<bar>n\<bar> :: rat) / of_int 1000 \<le> 2 ^ 1024 / 1000" by simp
  also have "\<dots> \<le> 2 powi 1015" by simp
  finally have b: "(of_int \<bar>n\<bar> :: rat) / of_int 1000 \<le> 2 powi 1015" .
  then have "int_truediv n 1000 = Inr (Finite (n < 0) (rnd (of_int \<bar>n\<bar> / of_int 1000)))"
    by (rule int_truediv_returns [where k = 1015, rotated]) simp_all
  moreover have "rnd (of_int \<bar>n\<bar> / of_int 1000) \<le> 2 powi 1015"
    using b by (intro rnd_small(1)) simp_all
  moreover have "(0::rat) \<le> rnd (of_int \<bar>n\<bar> / of_int 1000)" by (intro rnd_nonneg) simp
  ultimately show ?thesis using PInt by simp
next
  case (PFloat x)
  with assms obtain s m where x: "x = Finite s m" and m: "0 \<le> m" "\<not> overflows m"
    by (cases x) auto
  have i: "int_to_float 1000 = Inr (Finite False 1000)" by code_simp
  from m(2) have "m \<le> 2 ^ 1024" by (simp add: overflows_def)
  then have "m / 1000 \<le> 2 ^ 1024 / 1000" by simp
  also have "\<dots> \<le> 2 powi 1015" by simp
  finally have b: "m / 1000 \<le> 2 powi 1015" .
  have m0: "0 \<le> m / 1000" using m(1) by simp
  from rnd_small [OF m0 b] have r: "rnd (m / 1000) \<le> 2 powi 1015" "\<not> overflows (rnd (m / 1000))"
    by simp_all
  have "0 \<le> rnd (m / 1000)" using m0 by (rule rnd_nonneg)
  then show ?thesis using PFloat x r by (simp add: i pack_def Let_def)
qed

lemma office_general_returns:
  assumes "finite_num gross"
  shows "\<exists>r. calculate_parking ''office_general'' gross units_arg seats employees None = Inr r"
proof -
  from sf_units_returns [OF assms] obtain s m where
    d: "py_truediv gross (PInt 1000) = Inr (PFloat (Finite s m))" and m: "0 \<le> m" "m \<le> 2 powi 1015"
    by blast
  have three: "float_literal 3 = Finite False 3" by code_simp
  have p0: "0 \<le> 3 * m" using m(1) by simp
  have "3 * m \<le> 4 * 2 powi 1015" using m by simp
  also have "\<dots> = 2 powi 1017" by simp
  finally have pk: "3 * m \<le> 2 powi 1017" .
  from rnd_small [OF p0 pk] have r: "rnd (3 * m) \<le> 2 powi 1017" "\<not> overflows (rnd (3 * m))"
    by simp_all
  have r0: "0 \<le> rnd (3 * m)" using p0 by (rule rnd_nonneg)
  have "(2::rat) powi 1017 \<le> 2 powi 1023" by simp
  with r(1) have "rnd (3 * m) \<le> 2 powi 1023" by linarith
  from math_ceil_bounded [OF r0 this] obtain q where
    q: "math_ceil (PFloat (Finite s (rnd (3 * m)))) = Inr q" "q \<le> 2 ^ 1023" by blast
  from calculate_ada_spaces_returns [OF q(2)] obtain a where
    a: "calculate_ada_spaces q = Inr a" "0 \<le> a" "a \<le> 2 ^ 1023" by blast
  from calculate_van_accessible_returns [OF a(2,3)] obtain v where
    v: "calculate_van_accessible a = Inr v" by blast
  have disp: "dispatch ''1,000 SF'' = ThousandSF" by (simp add: dispatch_def)
  have "base_requirement (PFloat (Finite False 3)) ''1,000 SF'' gross units_arg seats
          = Inr (q, calculation_note (PFloat (Finite False 3)) (Fixed2 (PFloat (Finite s m)))
                  '' (1,000 SF) = '' q)"
    using d r(2) q(1) by (simp add: base_requirement_def disp and_then_def pack_def Let_def)
  then show ?thesis
    using a(1) v
    by (simp add: calculate_parking_def office_general_entry entry_def three Let_def and_then_def)
qed

lemma int_to_float_no_KeyError: "int_to_float i \<noteq> Inl KeyError"
  by (simp add: int_to_float_def Let_def)

lemma float_div_no_KeyError: "float_div x y \<noteq> Inl KeyError"
  by (cases y; cases x) auto

lemma py_mul_no_KeyError: "py_mul a b \<noteq> Inl KeyError"
  using int_to_float_no_KeyError
  by (cases a; cases b) (auto split: sum.splits)

lemma py_truediv_no_KeyError: "py_truediv a b \<noteq> Inl KeyError"
  using int_to_float_no_KeyError float_div_no_KeyError
  by (cases a; cases b) (auto simp: int_truediv_def Let_def split: sum.splits)

lemma math_ceil_no_KeyError: "math_ceil a \<noteq> Inl KeyError"
proof (cases a)
  case (PInt i)
  then show ?thesis by simp
next
  case (PFloat x)
  then show ?thesis by (cases x) auto
qed

lemma and_then_eq_Inl:
  "and_then m f = Inl e \<longleftrightarrow> m = Inl e \<or> (\<exists>v. m = Inr v \<and> f v = Inl e)"
  by (cases m) (auto simp: and_then_def)

lemmas no_KeyError =
  and_then_eq_Inl py_truediv_no_KeyError py_mul_no_KeyError math_ceil_no_KeyError

lemma calculate_ada_spaces_no_KeyError: "calculate_ada_spaces n \<noteq> Inl KeyError"
  unfolding calculate_ada_spaces_def
  by (simp add: no_KeyError del: py_truediv.simps split: option.splits)

lemma calculate_van_accessible_no_KeyError: "calculate_van_accessible n \<noteq> Inl KeyError"
  unfolding calculate_van_accessible_def
  by (simp add: no_KeyError del: py_truediv.simps)

lemma base_requirement_no_KeyError:
  "base_requirement ratio unit_type gross units_arg seats \<noteq> Inl KeyError"
  unfolding base_requirement_def
  by (cases "dispatch unit_type")
    (simp_all add: no_KeyError del: py_truediv.simps py_mul.simps)

lemma calculate_parking_no_KeyError:
  "calculate_parking name gross units_arg seats employees custom_ratio \<noteq> Inl KeyError"
proof -
  define name1 where
    "name1 = (if map_of PARKING_RATIOS name = None then ''office_general'' else name)"
  obtain info where i: "map_of PARKING_RATIOS name1 = Some info"
    unfolding name1_def using office_general_entry by (cases "map_of PARKING_RATIOS name") auto
  show ?thesis
    unfolding calculate_parking_def Let_def name1_def [symmetric] i
    by (simp add: no_KeyError base_requirement_no_KeyError calculate_ada_spaces_no_KeyError
        calculate_van_accessible_no_KeyError split: prod.splits)
qed

section \<open>Monotonicity of the required spaces\<close>

lemma sround_mono: "v \<le> w \<Longrightarrow> sround v \<le> sround w"
proof -
  assume vw: "v \<le> w"
  consider "w < 0" | "v < 0" "0 \<le> w" | "0 \<le> v" by linarith
  then show ?thesis
  proof cases
    case 1
    then have "rnd (- w) \<le> rnd (- v)" using vw by (intro rnd_mono) simp_all
    then show ?thesis using 1 vw by (simp add: sround_def)
  next
    case 2
    have "0 \<le> rnd (- v)" using 2 by (intro rnd_nonneg) simp
    moreover have "0 \<le> rnd w" using 2 by (intro rnd_nonneg)
    ultimately show ?thesis using 2 by (simp add: sround_def)
  next
    case 3
    then have "rnd v \<le> rnd w" using vw by (intro rnd_mono)
    then show ?thesis using 3 vw by (simp add: sround_def)
  qed
qed

lemma sround_nonneg: "0 \<le> v \<Longrightarrow> 0 \<le> sround v"
  by (simp add: sround_def rnd_nonneg)

lemma int_to_float_value:
  assumes "int_to_float i = Inr y"
  shows "finite_float y" and "float_value y = sround (of_int i)"
proof -
  from assms have y: "y = Finite (i < 0) (rnd (of_int \<bar>i\<bar>))"
    by (auto simp: int_to_float_def Let_def split: if_splits)
  have "(0::rat) \<le> rnd (of_int \<bar>i\<bar>)" by (intro rnd_nonneg) simp
  then show "finite_float y" by (simp add: y)
  show "float_value y = sround (of_int i)"
    by (cases "i < 0") (simp_all add: y sround_def)
qed

lemma int_truediv_value:
  assumes "int_truediv n 1000 = Inr y"
  shows "finite_float y" and "float_value y = sround (of_int n / 1000)"
proof -
  from assms have y: "y = Finite (n < 0) (rnd (of_int \<bar>n\<bar> / of_int 1000))"
    by (auto simp: int_truediv_def Let_def split: if_splits)
  have "(0::rat) \<le> rnd (of_int \<bar>n\<bar> / of_int 1000)" by (intro rnd_nonneg) simp
  then show "finite_float y" by (simp add: y)
  show "float_value y = sround (of_int n / 1000)"
  proof (cases "n < 0")
    case True
    then have "(of_int n :: rat) / 1000 < 0" by simp
    then show ?thesis using True by (simp add: y sround_def)
  next
    case False
    then have "\<not> (of_int n :: rat) / 1000 < 0" by simp
    then show ?thesis using False by (simp add: y sround_def)
  qed
qed

lemma pack_value:
  assumes "0 \<le> m" "pack s m = Finite t k"
  shows "0 \<le> k" and "float_value (Finite t k) = sround (if s then - m else m)"
proof -
  from assms(2) have k: "k = rnd m" "t = s"
    by (auto simp: pack_def Let_def split: if_splits)
  show "0 \<le> k" using assms(1) by (simp add: k rnd_nonneg)
  show "float_value (Finite t k) = sround (if s then - m else m)"
  proof (cases "m = 0")
    case True
    then show ?thesis by (simp add: k sround_def)
  next
    case False
    with assms(1) have "0 < m" by simp
    then show ?thesis by (simp add: k sround_def)
  qed
qed

lemma float_mul_value:
  assumes "float_mul x y = Finite t k"
    and "finite_float x \<or> \<not> (\<exists>s m. x = Finite s m)"
    and "finite_float y \<or> \<not> (\<exists>s m. y = Finite s m)"
  shows "finite_float x" and "finite_float y" and "0 \<le> k"
    and "float_value (Finite t k) = sround (float_value x * float_value y)"
proof -
  from assms obtain s m s' m' where x: "x = Finite s m" and y: "y = Finite s' m'"
    by (cases x; cases y) (auto split: if_splits)
  from assms(2,3) have m: "0 \<le> m" "0 \<le> m'" by (simp_all add: x y)
  show "finite_float x" "finite_float y" using m by (simp_all add: x y)
  from assms(1) have p: "pack (s \<noteq> s') (m * m') = Finite t k" by (simp add: x y)
  have mm: "0 \<le> m * m'" using m by simp
  show "0 \<le> k" by (rule pack_value(1) [OF mm p])
  have "float_value x * float_value y = (if s \<noteq> s' then - (m * m') else m * m')"
    by (simp add: x y)
  then show "float_value (Finite t k) = sround (float_value x * float_value y)"
    using pack_value(2) [OF mm p] by simp
qed

lemma math_ceil_value:
  assumes "math_ceil (PFloat x) = Inr q"
  shows "\<exists>s m. x = Finite s m" and "q = \<lceil>float_value x\<rceil>"
proof -
  from assms obtain s m where x: "x = Finite s m" by (cases x) auto
  then show "\<exists>s m. x = Finite s m" by blast
  from assms show "q = \<lceil>float_value x\<rceil>"
    by (auto simp: x ceiling_def)
qed

lemma valid_num_wf: "valid_num a \<Longrightarrow> wf_num a"
  by (cases a rule: wf_num.cases) simp_all

lemma ratio_value_nonneg:
  assumes "py_le (PInt 0) ratio" "wf_num ratio"
  shows "0 \<le> ratio_value ratio"
proof (cases ratio)
  case (PInt k)
  with assms show ?thesis by (simp add: sround_nonneg)
next
  case (PFloat x)
  with assms show ?thesis by (cases x) (auto split: if_splits)
qed

lemma mul_ceil_value:
  assumes "mul_ceil ratio (PFloat y) = Inr q" "wf_num ratio" "wf_num (PFloat y)"
  shows "finite_float y" and "q = \<lceil>sround (ratio_value ratio * float_value y)\<rceil>"
proof -
  have wy: "finite_float y \<or> \<not> (\<exists>s m. y = Finite s m)"
    using assms(3) by (cases y) auto
  have "finite_float y \<and> q = \<lceil>sround (ratio_value ratio * float_value y)\<rceil>"
  proof (cases ratio)
    case (PInt k)
    from assms(1) obtain x where x: "int_to_float k = Inr x"
      and c: "math_ceil (PFloat (float_mul x y)) = Inr q"
      by (cases "int_to_float k") (auto simp: mul_ceil_def and_then_def PInt)
    from math_ceil_value [OF c] obtain t m where
      f: "float_mul x y = Finite t m" and q: "q = \<lceil>float_value (float_mul x y)\<rceil>" by blast
    from int_to_float_value [OF x] have vx: "finite_float x" "float_value x = sround (of_int k)"
      by simp_all
    from float_mul_value [OF f _ wy] vx(1)
    have "finite_float y" "float_value (Finite t m) = sround (float_value x * float_value y)"
      by simp_all
    then show ?thesis using q f vx(2) PInt by simp
  next
    case (PFloat x)
    from assms(1) have c: "math_ceil (PFloat (float_mul x y)) = Inr q"
      by (simp add: mul_ceil_def and_then_def PFloat)
    from math_ceil_value [OF c] obtain t m where
      f: "float_mul x y = Finite t m" and q: "q = \<lceil>float_value (float_mul x y)\<rceil>" by blast
    have wx: "finite_float x \<or> \<not> (\<exists>s m. x = Finite s m)"
      using assms(2) PFloat by (cases x) auto
    from float_mul_value [OF f wx wy]
    have "finite_float y" "float_value (Finite t m) = sround (float_value x * float_value y)"
      by simp_all
    then show ?thesis using q f PFloat by simp
  qed
  then show "finite_float y" and "q = \<lceil>sround (ratio_value ratio * float_value y)\<rceil>"
    by simp_all
qed

lemma mul_ceil_int_mono:
  assumes "py_le (PInt 0) ratio" "wf_num ratio" "a \<le> b"
    and "mul_ceil ratio (PInt a) = Inr q" "mul_ceil ratio (PInt b) = Inr q'"
  shows "q \<le> q'"
proof (cases ratio)
  case (PInt k)
  with assms(1) have "0 \<le> k" by simp
  then have "k * a \<le> k * b" using assms(3) by (rule mult_left_mono [rotated])
  then show ?thesis using assms(4,5) by (simp add: mul_ceil_def and_then_def PInt)
next
  case (PFloat x)
  from assms(4) obtain y where y: "int_to_float a = Inr y"
    and c: "mul_ceil ratio (PFloat y) = Inr q"
    by (cases "int_to_float a") (auto simp: mul_ceil_def and_then_def PFloat)
  from assms(5) obtain y' where y': "int_to_float b = Inr y'"
    and c': "mul_ceil ratio (PFloat y') = Inr q'"
    by (cases "int_to_float b") (auto simp: mul_ceil_def and_then_def PFloat)
  note v = int_to_float_value [OF y] and v' = int_to_float_value [OF y']
  have w: "wf_num (PFloat y)" "wf_num (PFloat y')" using v(1) v'(1) by (cases y; cases y'; simp)+
  from mul_ceil_value(2) [OF c assms(2) w(1)] mul_ceil_value(2) [OF c' assms(2) w(2)]
  have q: "q = \<lceil>sround (ratio_value ratio * sround (of_int a))\<rceil>"
    "q' = \<lceil>sround (ratio_value ratio * sround (of_int b))\<rceil>"
    by (simp_all add: v(2) v'(2))
  have "sround (of_int a) \<le> sround (of_int b)" using assms(3) by (intro sround_mono) simp
  then have "ratio_value ratio * sround (of_int a) \<le> ratio_value ratio * sround (of_int b)"
    using ratio_value_nonneg [OF assms(1,2)] by (rule mult_left_mono)
  then show ?thesis unfolding q by (intro ceiling_mono sround_mono)
qed

lemma float_1000: "int_to_float 1000 = Inr (Finite False 1000)"
  by code_simp

lemma sf_units_value:
  assumes "py_truediv g (PInt 1000) = Inr sf" "wf_num g"
  shows "\<exists>y. sf = PFloat y \<and> wf_num (PFloat y)
           \<and> (finite_float y \<longrightarrow>
                finite_value g \<and> float_value y = sround (num_value g / 1000))"
proof (cases g)
  case (PInt n)
  from assms(1) obtain y where y: "int_truediv n 1000 = Inr y" and sf: "sf = PFloat y"
    by (cases "int_truediv n 1000") (auto simp: PInt)
  from int_truediv_value [OF y] have "finite_float y" "float_value y = sround (of_int n / 1000)"
    by simp_all
  moreover from this(1) have "wf_num (PFloat y)" by (cases y) simp_all
  ultimately show ?thesis using sf PInt by simp
next
  case (PFloat x)
  show ?thesis
  proof (cases x)
    case (Finite s m)
    with assms(2) PFloat have m: "0 \<le> m" by simp
    then have m0: "0 \<le> m / 1000" by simp
    from assms(1) have sf: "sf = PFloat (pack s (m / 1000))"
      by (auto simp: PFloat Finite float_1000)
    show ?thesis
    proof (cases "pack s (m / 1000)")
      case (Finite t k)
      from pack_value [OF m0 Finite]
      have "0 \<le> k" "float_value (Finite t k) = sround (if s then - (m / 1000) else m / 1000)"
        by simp_all
      then show ?thesis using sf Finite PFloat \<open>x = Finite s m\<close> by simp
    next
      case (Infinite t)
      then show ?thesis using sf by simp
    next
      case NaN
      then show ?thesis using sf by simp
    qed
  next
    case (Infinite t)
    with assms(1) PFloat show ?thesis by (auto simp: float_1000)
  next
    case NaN
    with assms(1) PFloat show ?thesis by (auto simp: float_1000)
  qed
qed

lemma py_le_value:
  assumes "py_le g g'" "finite_value g" "finite_value g'"
  shows "num_value g \<le> num_value g'"
proof -
  have i: "float_value (Finite (a < 0) (of_int \<bar>a\<bar>)) = of_int a" for a :: int
    by simp
  show ?thesis
    using assms
    by (cases g rule: finite_value.cases; cases g' rule: finite_value.cases)
      (simp_all only: py_le.simps float_le.simps num_value.simps finite_value.simps i
        of_int_le_iff)
qed

lemma sf_ceil_value:
  assumes "sf_ceil ratio g = Inr q" "wf_num ratio" "wf_num g"
  shows "finite_value g"
    and "q = \<lceil>sround (ratio_value ratio * sround (num_value g / 1000))\<rceil>"
proof -
  from assms(1) obtain sf where d: "py_truediv g (PInt 1000) = Inr sf"
    and c: "mul_ceil ratio sf = Inr q"
    by (cases "py_truediv g (PInt 1000)") (auto simp: sf_ceil_def and_then_def)
  from sf_units_value [OF d assms(3)] obtain y where y: "sf = PFloat y" "wf_num (PFloat y)"
    "finite_float y \<longrightarrow> finite_value g \<and> float_value y = sround (num_value g / 1000)"
    by blast
  from c have c': "mul_ceil ratio (PFloat y) = Inr q" by (simp add: y(1))
  from mul_ceil_value [OF c' assms(2) y(2)] y(3)
  show "finite_value g" and "q = \<lceil>sround (ratio_value ratio * sround (num_value g / 1000))\<rceil>"
    by simp_all
qed

lemma sf_ceil_mono:
  assumes "py_le (PInt 0) ratio" "wf_num ratio" "wf_num g" "wf_num g'" "g = g' \<or> py_le g g'"
    and "sf_ceil ratio g = Inr q" "sf_ceil ratio g' = Inr q'"
  shows "q \<le> q'"
proof -
  note v = sf_ceil_value [OF assms(6) assms(2,3)] and v' = sf_ceil_value [OF assms(7) assms(2,4)]
  have "num_value g \<le> num_value g'"
    using assms(5) py_le_value [OF _ v(1) v'(1)] by auto
  then have "num_value g / 1000 \<le> num_value g' / 1000" by simp
  then have "sround (num_value g / 1000) \<le> sround (num_value g' / 1000)" by (rule sround_mono)
  then have "ratio_value ratio * sround (num_value g / 1000)
      \<le> ratio_value ratio * sround (num_value g' / 1000)"
    using ratio_value_nonneg [OF assms(1,2)] by (rule mult_left_mono)
  then show ?thesis unfolding v(2) v'(2) by (intro ceiling_mono sround_mono)
qed

lemma and_then_eq_Inr:
  "and_then m f = Inr w \<longleftrightarrow> (\<exists>v. m = Inr v \<and> f v = Inr w)"
  by (cases m) (auto simp: and_then_def)

lemma base_requirement_required:
  assumes "base_requirement ratio unit_type gross units_arg seats = Inr (q, note)"
  shows "required_of ratio unit_type gross units_arg seats = Inr q"
  using assms unfolding base_requirement_def required_of_def mul_ceil_def sf_ceil_def
  by (cases "dispatch unit_type") (auto simp: and_then_eq_Inr)

lemma calculate_parking_required:
  assumes "calculate_parking name gross units_arg seats employees custom_ratio = Inr r"
  shows "required_of (effective_ratio name custom_ratio) (entry_unit (resolved_info name))
           gross units_arg seats = Inr (required_spaces r)"
proof -
  define name1 where
    "name1 = (if map_of PARKING_RATIOS name = None then ''office_general'' else name)"
  have i: "map_of PARKING_RATIOS name1 = Some (resolved_info name)"
    unfolding name1_def resolved_info_def using office_general_entry
    by (cases "map_of PARKING_RATIOS name") auto
  from assms obtain nt where
    b: "base_requirement (effective_ratio name custom_ratio) (entry_unit (resolved_info name))
          gross units_arg seats = Inr (required_spaces r, nt)"
    unfolding calculate_parking_def Let_def name1_def [symmetric] i effective_ratio_def
    by (auto simp: and_then_eq_Inr)
  then show ?thesis by (rule base_requirement_required)
qed

lemma required_of_mono:
  assumes "py_le (PInt 0) ratio" "wf_num ratio" "wf_num g" "wf_num g'" "g = g' \<or> py_le g g'"
    and "u \<le> u'" "s \<le> s'"
    and "required_of ratio unit_type g u s = Inr q"
    and "required_of ratio unit_type g' u' s' = Inr q'"
  shows "q \<le> q'"
  using assms(8,9) unfolding required_of_def
  by (cases "dispatch unit_type")
    (auto intro: mul_ceil_int_mono [OF assms(1,2)] sf_ceil_mono [OF assms(1-5)] assms(6,7))

lemma entry_ratio_ok:
  assumes "0 \<le> q"
  shows "py_le (PInt 0) (entry_ratio (entry q u n)) \<and> wf_num (entry_ratio (entry q u n))"
  using rnd_nonneg [OF assms] by (simp add: entry_def float_literal_def)

lemma table_ratios_ok:
  "\<forall>(name, info) \<in> set PARKING_RATIOS.
     py_le (PInt 0) (entry_ratio info) \<and> wf_num (entry_ratio info)"
  unfolding PARKING_RATIOS_def by (simp add: entry_ratio_ok)

lemma resolved_ratio_ok:
  "py_le (PInt 0) (entry_ratio (resolved_info name)) \<and> wf_num (entry_ratio (resolved_info name))"
proof (cases "map_of PARKING_RATIOS name")
  case None
  then show ?thesis using entry_ratio_ok [of 3] by (simp add: resolved_info_def)
next
  case (Some info)
  then have "(name, info) \<in> set PARKING_RATIOS" by (rule map_of_SomeD)
  with table_ratios_ok show ?thesis using Some by (auto simp: resolved_info_def)
qed

lemma effective_ratio_ok:
  assumes "custom_ratio = None \<or> (\<exists>c. custom_ratio = Some c \<and> valid_num c \<and> py_le (PInt 0) c)"
  shows "py_le (PInt 0) (effective_ratio name custom_ratio)"
    and "wf_num (effective_ratio name custom_ratio)"
  using assms resolved_ratio_ok [of name]
  by (auto simp: effective_ratio_def valid_num_wf)

lemma base_requirement_note:
  assumes "base_requirement ratio unit_type gross units_arg seats = Inr (q, nt)"
  shows "nt = default_note \<longleftrightarrow> dispatch unit_type = Unrecognized"
  using assms unfolding base_requirement_def default_note_def
  by (cases "dispatch unit_type") (auto simp: and_then_eq_Inr calculation_note_def)

lemma calculate_parking_note:
  assumes "calculate_parking name gross units_arg seats employees custom_ratio = Inr r"
    and "map_of PARKING_RATIOS name = Some info"
  shows "length (result_notes r) = 3"
    and "result_notes r ! 1 = default_note \<longleftrightarrow> dispatch (entry_unit info) = Unrecognized"
proof -
  from assms obtain ratio q nt a v where
    b: "base_requirement ratio (entry_unit info) gross units_arg seats = Inr (q, nt)"
    and n: "result_notes r = [[Lit (entry_notes info)], nt, ada_note a v]"
    unfolding calculate_parking_def Let_def
    by (auto simp: and_then_eq_Inr)
  show "length (result_notes r) = 3" by (simp add: n)
  show "result_notes r ! 1 = default_note \<longleftrightarrow> dispatch (entry_unit info) = Unrecognized"
    using base_requirement_note [OF b] by (simp add: n)
qed

text \<open>Away from the step from 500 to 501 the ADA count never decreases.\<close>

lemma ada_step_monotone_elsewhere:
  assumes "m \<le> n" "n \<le> 500 \<or> 500 < m"
    and "calculate_ada_spaces m = Inr a" "calculate_ada_spaces n = Inr b"
  shows "a \<le> b"
proof (cases "1000 < m")
  case True
  then have n: "1000 < n" using assms(1) by simp
  have "(of_int (m - 1000) :: rat) / 100 \<le> of_int (n - 1000) / 100" using assms(1) by simp
  then have "rnd (of_int (m - 1000) / 100) \<le> rnd (of_int (n - 1000) / 100)"
    using True by (intro rnd_mono) simp_all
  then have "\<lceil>rnd (of_int (m - 1000) / 100)\<rceil> \<le> \<lceil>rnd (of_int (n - 1000) / 100)\<rceil>"
    by (rule ceiling_mono)
  then show ?thesis
    using assms(3,4) True n by (auto simp: calculate_ada_spaces_above_1000 split: if_splits)
next
  case False
  show ?thesis
  proof (cases "1000 < n")
    case True
    have "0 \<le> rnd (of_int (n - 1000) / 100)" using True by (intro rnd_nonneg) simp
    then have "0 \<le> \<lceil>rnd (of_int (n - 1000) / 100)\<rceil>" by (simp add: le_ceiling_iff)
    then have "20 \<le> b"
      using assms(4) True by (auto simp: calculate_ada_spaces_above_1000 split: if_splits)
    moreover have "a \<le> 9"
      using assms(3) False by (auto simp: calculate_ada_spaces_def scan_ada_table split: if_splits)
    ultimately show ?thesis by simp
  next
    case n: False
    show ?thesis
      using assms False n
      by (auto simp: calculate_ada_spaces_def scan_ada_table split: if_splits)
  qed
qed

section \<open>The claims\<close>

text \<open>
  Claim C1: the ADA step function is monotone non-decreasing on the non-negative
  integers. The table row \<open>(1000, 2)\<close> breaks it: 500 spaces need 9 accessible spaces
  and 501 spaces need 2.
\<close>

theorem ada_step_drops_after_500:
  "calculate_ada_spaces 500 = Inr 9 \<and> calculate_ada_spaces 501 = Inr 2"
  by (simp add: calculate_ada_spaces_def ADA_REQUIREMENTS_def)

text \<open>
  Claim C2: for every integer \<open>n\<close>, \<open>calculate_ada_spaces n\<close> is 0 up to 0, the first table
  value whose threshold is not below \<open>n\<close> from 1 to 1000, and 20 plus the ceiling of
  \<open>(n - 1000) / 100\<close> above 1000. The last part fails for large \<open>n\<close>: the quotient is a
  float, and past \<open>2 ^ 47\<close> the nearest float to a quotient just above an integer is that
  integer.
\<close>

theorem ada_step_rounds_beyond_bound:
  "calculate_ada_spaces 14073748835533801 = Inr 140737488355348
   \<and> ada_step 14073748835533801 = 140737488355349"
  by code_simp

text \<open>
  Claim C2 as amended: the same, for every integer \<open>n\<close> up to \<open>1000 + 100 * 2 ^ 47\<close>, which
  is 14073748835533800 (the counterexample is the next integer).
\<close>

theorem ada_step_up_to_bound:
  assumes "n \<le> 14073748835533800"
  shows "calculate_ada_spaces n = Inr (ada_step n)
       \<and> ada_step n =
           (if n \<le> 0 then 0 else if n \<le> 25 then 1 else if n \<le> 50 then 2
            else if n \<le> 75 then 3 else if n \<le> 100 then 4 else if n \<le> 150 then 5
            else if n \<le> 200 then 6 else if n \<le> 300 then 7 else if n \<le> 400 then 8
            else if n \<le> 500 then 9 else if n \<le> 1000 then 2
            else 20 + \<lceil>(of_int n - 1000) / (100::rat)\<rceil>)"
  using calculate_ada_spaces_exact [OF assms] ada_step_rows [of n] by blast

theorem ada_step_up_to_bound_witness:
  "(26::int) \<le> 14073748835533800 \<and> calculate_ada_spaces 26 = Inr 2
   \<and> calculate_ada_spaces 75 = Inr 3 \<and> calculate_ada_spaces 1001 = Inr 21
   \<and> calculate_ada_spaces 1100 = Inr 21 \<and> calculate_ada_spaces 0 = Inr 0
   \<and> calculate_ada_spaces 501 = Inr 2"
proof -
  have c: "\<lceil>(1::rat) / 100\<rceil> = 1" by (rule ceiling_unique) simp_all
  show ?thesis
    using ada_step_up_to_bound [of 26] ada_step_up_to_bound [of 75]
      ada_step_up_to_bound [of 1001] ada_step_up_to_bound [of 1100]
      ada_step_up_to_bound [of 0] ada_step_up_to_bound [of 501]
    by (simp add: c)
qed

text \<open>
  Claim C3: for every input sequence, \<open>calculate_mixed_use\<close> returns the sum of the required
  spaces of its entries, the ceiling of 0.85 times that sum, their difference, and the
  ADA count of the reduced total. The product with 0.85 is a float product: from a total
  of 662294062848613 on, the ceiling of the float can fall short of the exact one.
\<close>

theorem mixed_use_hotel_rounds:
  "map_sum id (\<lambda>m. (total_without_sharing m, shared_parking_potential m))
     (calculate_mixed_use [units_use ''hotel'' 662294062848613])
     = Inr (662294062848613, 562949953421321)
   \<and> \<lceil>(662294062848613::rat) * 85 / 100\<rceil> = 562949953421322"
  by code_simp

text \<open>
  Claim C3 as amended. Whenever \<open>calculate_mixed_use\<close> returns, its result holds the results
  of the calls of \<open>calculate_parking\<close>, one per entry and in input order, their sum, the
  difference of the two totals and the ADA count of the reduced total; the reduced total
  is the exact ceiling of 85 hundredths of the sum when that sum is at most
  662294062848602 in magnitude. It does return when every call for an entry returns and
  the sum is within that bound. The empty sequence and the example of the specification
  give the numbers stated.
\<close>

theorem mixed_use_totals:
  "(calculate_mixed_use uses = Inr m \<longrightarrow>
       map calculate_use uses = map Inr (individual_calculations m)
     \<and> total_without_sharing m = sum_list (map required_spaces (individual_calculations m))
     \<and> potential_reduction m = total_without_sharing m - shared_parking_potential m
     \<and> calculate_ada_spaces (shared_parking_potential m) = Inr (ada_total m)
     \<and> (\<bar>total_without_sharing m\<bar> \<le> 662294062848602 \<longrightarrow>
          shared_parking_potential m = \<lceil>(of_int (total_without_sharing m) :: rat) * 85 / 100\<rceil>))
   \<and> (map calculate_use uses = map Inr rs
        \<and> \<bar>sum_list (map required_spaces rs)\<bar> \<le> 662294062848602 \<longrightarrow>
        (\<exists>m'. calculate_mixed_use uses = Inr m'))
   \<and> map_sum id mixed_summary (calculate_mixed_use []) = Inr ([], 0, 0, 0, 0)
   \<and> map_sum id mixed_summary
        (calculate_mixed_use [gross_use ''retail'' 10000, gross_use ''office_general'' 20000,
           gross_use ''restaurant'' 3000])
       = Inr ([40, 60, 30], 130, 111, 19, 5)"
proof -
  have A: "map calculate_use uses = map Inr (individual_calculations m)
     \<and> total_without_sharing m = sum_list (map required_spaces (individual_calculations m))
     \<and> potential_reduction m = total_without_sharing m - shared_parking_potential m
     \<and> calculate_ada_spaces (shared_parking_potential m) = Inr (ada_total m)
     \<and> (\<bar>total_without_sharing m\<bar> \<le> 662294062848602 \<longrightarrow>
          shared_parking_potential m = \<lceil>(of_int (total_without_sharing m) :: rat) * 85 / 100\<rceil>)"
    if r: "calculate_mixed_use uses = Inr m"
  proof -
    have "shared_parking_potential m = \<lceil>(of_int (total_without_sharing m) :: rat) * 85 / 100\<rceil>"
      if "\<bar>total_without_sharing m\<bar> \<le> 662294062848602"
      using calculate_mixed_use_Inr(5) [OF r] shared_potential_exact [OF that] by simp
    then show ?thesis using calculate_mixed_use_Inr(1-4) [OF r] by blast
  qed
  have B: "\<exists>m'. calculate_mixed_use uses = Inr m'"
    if "map calculate_use uses = map Inr rs
        \<and> \<bar>sum_list (map required_spaces rs)\<bar> \<le> 662294062848602"
    using that calculate_mixed_use_returns [of uses rs] by blast
  have C: "map_sum id mixed_summary (calculate_mixed_use []) = Inr ([], 0, 0, 0, 0)"
    by code_simp
  have D: "map_sum id mixed_summary
        (calculate_mixed_use [gross_use ''retail'' 10000, gross_use ''office_general'' 20000,
           gross_use ''restaurant'' 3000])
       = Inr ([40, 60, 30], 130, 111, 19, 5)"
    by code_simp
  from A B C D show ?thesis by blast
qed

theorem mixed_use_totals_witness:
  "\<exists>m. calculate_mixed_use [gross_use ''retail'' 10000, gross_use ''office_general'' 20000,
           gross_use ''restaurant'' 3000] = Inr m
      \<and> \<bar>total_without_sharing m\<bar> \<le> 662294062848602
      \<and> map calculate_use [gross_use ''retail'' 10000, gross_use ''office_general'' 20000,
           gross_use ''restaurant'' 3000] = map Inr (individual_calculations m)
      \<and> \<bar>sum_list (map required_spaces (individual_calculations m))\<bar> \<le> 662294062848602
      \<and> total_without_sharing m = 130
      \<and> shared_parking_potential m = \<lceil>(130::rat) * 85 / 100\<rceil>
      \<and> shared_parking_potential m = 111 \<and> potential_reduction m = 19 \<and> ada_total m = 5
      \<and> calculate_ada_spaces 111 = Inr 5"
proof -
  let ?uses = "[gross_use ''retail'' 10000, gross_use ''office_general'' 20000,
           gross_use ''restaurant'' 3000]"
  note t = mixed_use_totals [of ?uses _ "[]"]
  from t have "map_sum id mixed_summary (calculate_mixed_use ?uses)
       = Inr ([40, 60, 30], 130, 111, 19, 5)" by blast
  then obtain m where m: "calculate_mixed_use ?uses = Inr m"
    and s: "mixed_summary m = ([40, 60, 30], 130, 111, 19, 5)"
    by (cases "calculate_mixed_use ?uses") auto
  from s have v: "total_without_sharing m = 130" "shared_parking_potential m = 111"
    "potential_reduction m = 19" "ada_total m = 5"
    by (simp_all add: mixed_summary_def)
  from mixed_use_totals [of ?uses m "[]"] m have p:
    "map calculate_use ?uses = map Inr (individual_calculations m)"
    "total_without_sharing m = sum_list (map required_spaces (individual_calculations m))"
    "calculate_ada_spaces (shared_parking_potential m) = Inr (ada_total m)"
    "\<bar>total_without_sharing m\<bar> \<le> 662294062848602 \<longrightarrow>
          shared_parking_potential m = \<lceil>(of_int (total_without_sharing m) :: rat) * 85 / 100\<rceil>"
    by blast+
  from p(4) v have c: "shared_parking_potential m = \<lceil>(130::rat) * 85 / 100\<rceil>" by simp
  have b: "\<bar>sum_list (map required_spaces (individual_calculations m))\<bar> \<le> 662294062848602"
    using p(2) v by simp
  from mixed_use_totals [of ?uses m "individual_calculations m"] p(1) b
  obtain m' where m': "calculate_mixed_use ?uses = Inr m'" by blast
  with m have "m' = m" by simp
  with m' v p(1,3) b c show ?thesis by (intro exI [of _ m]) simp
qed

text \<open>
  Claim C4: every \<^verbatim>\<open>ParkingRequirement\<close> that \<open>calculate_parking\<close> returns has
  \<open>total_spaces\<close> equal to \<open>required_spaces\<close>, whatever the use type, the quantities and
  the custom ratio.
\<close>

theorem total_equals_required:
  "calculate_parking name gross units_arg seats employees custom_ratio = Inr r
     \<Longrightarrow> total_spaces r = required_spaces r"
  by (rule calculate_parking_fields(1))

theorem total_equals_required_witness:
  "\<exists>r. calculate_parking ''multi_family'' (PInt 0) 50 0 0 None = Inr r
      \<and> required_spaces r = 75 \<and> total_spaces r = 75"
proof -
  have "map_sum id required_spaces (calculate_parking ''multi_family'' (PInt 0) 50 0 0 None)
          = Inr 75"
    by code_simp
  then obtain r where r: "calculate_parking ''multi_family'' (PInt 0) 50 0 0 None = Inr r"
    and q: "required_spaces r = 75"
    by (cases "calculate_parking ''multi_family'' (PInt 0) 50 0 0 None") auto
  from total_equals_required [OF r] q show ?thesis using r by simp
qed

text \<open>
  Claim C5: in every result of \<open>calculate_parking\<close>, \<open>ada_spaces\<close> is at least 1 when
  \<open>required_spaces\<close> lies in 1 to 1000, and is 0 when \<open>required_spaces\<close> is 0. The
  unrestricted form holds as well: above 1000 required spaces \<open>ada_spaces\<close> is at
  least 1 too.
\<close>

theorem ada_positive_iff_required_positive:
  assumes "calculate_parking name gross units_arg seats employees custom_ratio = Inr r"
  shows "(1 \<le> required_spaces r \<and> required_spaces r \<le> 1000 \<longrightarrow> 1 \<le> ada_spaces r)
       \<and> (required_spaces r = 0 \<longrightarrow> ada_spaces r = 0)
       \<and> (1000 < required_spaces r \<longrightarrow> 1 \<le> ada_spaces r)"
  using calculate_ada_spaces_sign [OF calculate_parking_fields(2) [OF assms]] by auto

theorem ada_positive_iff_required_positive_witness:
  "(\<exists>r. calculate_parking ''multi_family'' (PInt 0) 50 0 0 None = Inr r
        \<and> required_spaces r = 75 \<and> 1 \<le> ada_spaces r)
   \<and> (\<exists>r. calculate_parking ''multi_family'' (PInt 0) 0 0 0 None = Inr r
        \<and> required_spaces r = 0 \<and> ada_spaces r = 0)
   \<and> (\<exists>r. calculate_parking ''multi_family'' (PInt 0) 1000 0 0 None = Inr r
        \<and> required_spaces r = 1500 \<and> 1 \<le> ada_spaces r)"
proof -
  have "map_sum id required_spaces (calculate_parking ''multi_family'' (PInt 0) 50 0 0 None)
          = Inr 75"
    by code_simp
  then obtain r1 where r1: "calculate_parking ''multi_family'' (PInt 0) 50 0 0 None = Inr r1"
    and q1: "required_spaces r1 = 75"
    by (cases "calculate_parking ''multi_family'' (PInt 0) 50 0 0 None") auto
  have "map_sum id required_spaces (calculate_parking ''multi_family'' (PInt 0) 0 0 0 None)
          = Inr 0"
    by code_simp
  then obtain r2 where r2: "calculate_parking ''multi_family'' (PInt 0) 0 0 0 None = Inr r2"
    and q2: "required_spaces r2 = 0"
    by (cases "calculate_parking ''multi_family'' (PInt 0) 0 0 0 None") auto
  have "map_sum id required_spaces (calculate_parking ''multi_family'' (PInt 0) 1000 0 0 None)
          = Inr 1500"
    by code_simp
  then obtain r3 where r3: "calculate_parking ''multi_family'' (PInt 0) 1000 0 0 None = Inr r3"
    and q3: "required_spaces r3 = 1500"
    by (cases "calculate_parking ''multi_family'' (PInt 0) 1000 0 0 None") auto
  from ada_positive_iff_required_positive [OF r1] q1 have "1 \<le> ada_spaces r1" by simp
  moreover from ada_positive_iff_required_positive [OF r2] q2 have "ada_spaces r2 = 0" by simp
  moreover from ada_positive_iff_required_positive [OF r3] q3 have "1 \<le> ada_spaces r3" by simp
  ultimately show ?thesis using r1 q1 r2 q2 r3 q3 by blast
qed

text \<open>
  Claim C6: for every use type that is not in the table, \<open>calculate_parking\<close> does not
  fail: it notes a warning, takes the entry of \<^verbatim>\<open>office_general\<close> and goes on. The lookup
  never fails, but the arithmetic that follows can, as it can for a use type of the
  table: an infinite floor area makes \<^verbatim>\<open>math.ceil\<close> raise.
\<close>

theorem unknown_use_raises_on_infinite_area:
  "map_of PARKING_RATIOS ''nonexistent_use'' = None
   \<and> calculate_parking ''nonexistent_use'' (PFloat (Infinite False)) 0 0 0 None
       = Inl OverflowError"
  by code_simp

text \<open>
  Claim C6 as amended: for a use type that is not in the table, the outcome of
  \<open>calculate_parking\<close> is the outcome of the call with \<^verbatim>\<open>office_general\<close>, the warning note put
  first in a result; it is never a \<^verbatim>\<open>KeyError\<close>; and the call returns for every finite floor
  area when no custom ratio is given. The call of the specification's example returns 15
  required spaces and the warning note.
\<close>

theorem unknown_use_falls_back:
  assumes "map_of PARKING_RATIOS name = None"
  shows "calculate_parking name gross units_arg seats employees custom_ratio =
           map_sum id (with_warning name)
             (calculate_parking ''office_general'' gross units_arg seats employees custom_ratio)
       \<and> calculate_parking name gross units_arg seats employees custom_ratio \<noteq> Inl KeyError
       \<and> (finite_num gross \<longrightarrow>
            (\<exists>r. calculate_parking name gross units_arg seats employees None = Inr r
               \<and> use_type r = ''office_general''
               \<and> hd (result_notes r) = unknown_use_note name))
       \<and> map_sum id (\<lambda>r. (required_spaces r, hd (result_notes r)))
            (calculate_parking ''nonexistent_use'' (PInt 5000) 0 0 0 None)
           = Inr (15, unknown_use_note ''nonexistent_use'')"
proof -
  have A: "calculate_parking name gross units_arg seats employees c =
           map_sum id (with_warning name)
             (calculate_parking ''office_general'' gross units_arg seats employees c)" for c
    using assms by (rule unknown_use_as_office_general)
  have B: "\<exists>r. calculate_parking name gross units_arg seats employees None = Inr r
               \<and> use_type r = ''office_general''
               \<and> hd (result_notes r) = unknown_use_note name" if "finite_num gross"
  proof -
    from office_general_returns [OF that] obtain r0 where
      r0: "calculate_parking ''office_general'' gross units_arg seats employees None = Inr r0"
      by blast
    then have "use_type r0 = ''office_general''"
      by (auto simp: calculate_parking_def office_general_entry Let_def and_then_def
          split: sum.splits prod.splits)
    then show ?thesis unfolding A r0 by (simp add: with_warning_def)
  qed
  have C: "map_sum id (\<lambda>r. (required_spaces r, hd (result_notes r)))
            (calculate_parking ''nonexistent_use'' (PInt 5000) 0 0 0 None)
           = Inr (15, unknown_use_note ''nonexistent_use'')"
    by code_simp
  from A B C calculate_parking_no_KeyError show ?thesis by blast
qed

theorem unknown_use_falls_back_witness:
  "map_of PARKING_RATIOS ''nonexistent_use'' = None \<and> finite_num (PInt 5000)
   \<and> (\<exists>r. calculate_parking ''nonexistent_use'' (PInt 5000) 0 0 0 None = Inr r
        \<and> use_type r = ''office_general'' \<and> required_spaces r = 15
        \<and> hd (result_notes r) = unknown_use_note ''nonexistent_use'')"
proof -
  have n: "map_of PARKING_RATIOS ''nonexistent_use'' = None"
    by (simp add: PARKING_RATIOS_def)
  have f: "finite_num (PInt 5000)" by code_simp
  note t = unknown_use_falls_back [OF n, of "PInt 5000" 0 0 0 None]
  from t f obtain r where
    r: "calculate_parking ''nonexistent_use'' (PInt 5000) 0 0 0 None = Inr r"
    "use_type r = ''office_general''" "hd (result_notes r) = unknown_use_note ''nonexistent_use''"
    by blast
  from t have "map_sum id (\<lambda>r. (required_spaces r, hd (result_notes r)))
            (calculate_parking ''nonexistent_use'' (PInt 5000) 0 0 0 None)
           = Inr (15, unknown_use_note ''nonexistent_use'')" by blast
  with r have "required_spaces r = 15" by simp
  with n f r show ?thesis by blast
qed

text \<open>
  Claim C7: every entry of the ratio table has one of the five unit bases, so that no use
  type of the table takes the final \<^verbatim>\<open>else\<close> of the dispatch. The entry \<^verbatim>\<open>daycare\<close> does: its
  unit \<^verbatim>\<open>employee + 1 per 10 children\<close> contains none of the five substrings, and the
  calculation is the default one on the floor area.
\<close>

theorem daycare_takes_fallback:
  "map_option (\<lambda>info. dispatch (entry_unit info)) (map_of PARKING_RATIOS ''daycare'')
     = Some Unrecognized
   \<and> map_sum id (\<lambda>r. (required_spaces r, result_notes r ! 1))
        (calculate_parking ''daycare'' (PInt 5000) 0 0 0 None)
     = Inr (5, default_note)"
  by code_simp

text \<open>
  Claim C7 as amended: every entry of the table other than \<^verbatim>\<open>daycare\<close> is dispatched to
  one of the enumerated formulas (a \<^verbatim>\<open>classroom\<close> unit by the test for \<^verbatim>\<open>room\<close>, which comes
  first and computes the same product), and a result of \<open>calculate_parking\<close> for it does
  not carry the note of the default calculation.
\<close>

theorem table_dispatch:
  assumes "map_of PARKING_RATIOS name = Some info" and "name \<noteq> ''daycare''"
  shows "dispatch (entry_unit info) \<in> {DwellingUnit, ThousandSF, Seat, Room}
       \<and> (calculate_parking name gross units_arg seats employees custom_ratio = Inr r \<longrightarrow>
            result_notes r ! 1 \<noteq> default_note)"
proof -
  have d: "dispatch (entry_unit info) \<noteq> Unrecognized" "dispatch (entry_unit info) \<noteq> Classroom"
    using dispatch_table [OF assms(1)] assms(2) by simp_all
  then have "dispatch (entry_unit info) \<in> {DwellingUnit, ThousandSF, Seat, Room}"
    by (cases "dispatch (entry_unit info)") auto
  moreover have "result_notes r ! 1 \<noteq> default_note"
    if "calculate_parking name gross units_arg seats employees custom_ratio = Inr r"
    using calculate_parking_note(2) [OF that assms(1)] d(1) by simp
  ultimately show ?thesis by blast
qed

theorem table_dispatch_witness:
  "\<exists>info r. map_of PARKING_RATIOS ''hotel'' = Some info \<and> ''hotel'' \<noteq> ''daycare''
      \<and> calculate_parking ''hotel'' (PInt 0) 120 0 0 None = Inr r
      \<and> dispatch (entry_unit info) \<in> {DwellingUnit, ThousandSF, Seat, Room}
      \<and> required_spaces r = 120 \<and> result_notes r ! 1 \<noteq> default_note"
proof -
  have l: "map_of PARKING_RATIOS ''hotel'' =
      Some (entry 1 ''room'' ''1 space per room + employee parking'')"
    by (simp add: PARKING_RATIOS_def)
  have n: "''hotel'' \<noteq> ''daycare''" by simp
  have "map_sum id required_spaces (calculate_parking ''hotel'' (PInt 0) 120 0 0 None) = Inr 120"
    by code_simp
  then obtain r where r: "calculate_parking ''hotel'' (PInt 0) 120 0 0 None = Inr r"
    "required_spaces r = 120"
    by (cases "calculate_parking ''hotel'' (PInt 0) 120 0 0 None") auto
  from table_dispatch [OF l n, of "PInt 0" 120 0 0 None r] r l n show ?thesis by blast
qed

text \<open>
  Claim C8: for a fixed use type and a fixed effective ratio, increasing one of the
  quantities never decreases \<open>required_spaces\<close>. A custom ratio may be negative, and then
  more units require fewer spaces.
\<close>

theorem negative_ratio_decreases:
  "map_sum id required_spaces
     (calculate_parking ''single_family'' (PInt 0) 1 0 0 (Some (PFloat (Finite True 1))))
     = Inr (- 1)
   \<and> map_sum id required_spaces
     (calculate_parking ''single_family'' (PInt 0) 2 0 0 (Some (PFloat (Finite True 1))))
     = Inr (- 2)"
  by code_simp

text \<open>
  Claim C8 as amended: for a fixed use type and an effective ratio that is not negative
  (a ratio of the table, or a custom ratio that is at least 0), of two calls that return
  and differ by increasing the floor area, the units or the seats, the second requires
  at least as many spaces as the first.
\<close>

theorem required_spaces_monotone:
  assumes "custom_ratio = None \<or> (\<exists>c. custom_ratio = Some c \<and> valid_num c \<and> py_le (PInt 0) c)"
    and "valid_num gross" and "valid_num gross'"
    and "gross = gross' \<or> py_le gross gross'"
    and "units_arg \<le> units_arg'" and "seats \<le> seats'"
    and "calculate_parking name gross units_arg seats employees custom_ratio = Inr r"
    and "calculate_parking name gross' units_arg' seats' employees custom_ratio = Inr r'"
  shows "required_spaces r \<le> required_spaces r'"
  using required_of_mono [OF effective_ratio_ok [OF assms(1)]
      valid_num_wf [OF assms(2)] valid_num_wf [OF assms(3)] assms(4-6)
      calculate_parking_required [OF assms(7)] calculate_parking_required [OF assms(8)]] .

theorem required_spaces_monotone_witness:
  "valid_num (PInt 10000) \<and> valid_num (PFloat (Finite False 12500))
   \<and> py_le (PInt 10000) (PFloat (Finite False 12500))
   \<and> (\<exists>r r'. calculate_parking ''retail'' (PInt 10000) 0 0 0 None = Inr r
        \<and> calculate_parking ''retail'' (PFloat (Finite False 12500)) 0 0 0 None = Inr r'
        \<and> required_spaces r = 40 \<and> required_spaces r' = 50
        \<and> required_spaces r \<le> required_spaces r')"
proof -
  have v: "valid_num (PInt 10000)" "valid_num (PFloat (Finite False 12500))"
    "py_le (PInt 10000) (PFloat (Finite False 12500))"
    by code_simp+
  have "map_sum id required_spaces (calculate_parking ''retail'' (PInt 10000) 0 0 0 None)
          = Inr 40"
    by code_simp
  then obtain r where r: "calculate_parking ''retail'' (PInt 10000) 0 0 0 None = Inr r"
    "required_spaces r = 40"
    by (cases "calculate_parking ''retail'' (PInt 10000) 0 0 0 None") auto
  have "map_sum id required_spaces
          (calculate_parking ''retail'' (PFloat (Finite False 12500)) 0 0 0 None) = Inr 50"
    by code_simp
  then obtain r' where
    r': "calculate_parking ''retail'' (PFloat (Finite False 12500)) 0 0 0 None = Inr r'"
    "required_spaces r' = 50"
    by (cases "calculate_parking ''retail'' (PFloat (Finite False 12500)) 0 0 0 None") auto
  have "required_spaces r \<le> required_spaces r'"
    using required_spaces_monotone [OF _ v(1,2) _ _ _ r(1) r'(1)] v(3) by simp
  with v r r' show ?thesis by blast
qed

text \<open>
  Claim C9: the parameter \<^verbatim>\<open>employees\<close> has no effect: two calls that differ only in it
  give the same outcome, equal in every field of the result, the notes included.
\<close>

theorem employees_ignored:
  "calculate_parking name gross units_arg seats employees custom_ratio =
   calculate_parking name gross units_arg seats employees' custom_ratio"
  by (simp add: calculate_parking_def)

text \<open>
  Claim C10: for a use type that is not in the table, the field \<open>use_type\<close> of the result
  is \<^verbatim>\<open>office_general\<close>, not the caller's string, which appears in the warning note only:
  but for that note, put first, the result is the one of the call with \<^verbatim>\<open>office_general\<close>.
\<close>

theorem unknown_use_reported_as_office_general:
  assumes "map_of PARKING_RATIOS name = None"
    and "calculate_parking name gross units_arg seats employees custom_ratio = Inr r"
  shows "use_type r = ''office_general'' \<and> use_type r \<noteq> name
       \<and> hd (result_notes r) = unknown_use_note name
       \<and> (\<exists>r0. calculate_parking ''office_general'' gross units_arg seats employees custom_ratio
                  = Inr r0
              \<and> r = r0\<lparr>result_notes := unknown_use_note name # result_notes r0\<rparr>)"
proof -
  from assms(2) obtain r0 where
    r0: "calculate_parking ''office_general'' gross units_arg seats employees custom_ratio = Inr r0"
    and r: "r = with_warning name r0"
    unfolding unknown_use_as_office_general [OF assms(1)]
    by (cases "calculate_parking ''office_general'' gross units_arg seats employees custom_ratio")
      auto
  have u0: "use_type r0 = ''office_general''"
    using r0
    by (auto simp: calculate_parking_def office_general_entry Let_def and_then_def
        split: sum.splits prod.splits)
  have "name \<noteq> ''office_general''" using assms(1) office_general_entry by auto
  with r0 r u0 show ?thesis by (auto simp: with_warning_def)
qed

theorem unknown_use_reported_as_office_general_witness:
  "map_of PARKING_RATIOS ''nonexistent_use'' = None
   \<and> (\<exists>r. calculate_parking ''nonexistent_use'' (PInt 5000) 0 0 0 None = Inr r
        \<and> use_type r = ''office_general''
        \<and> hd (result_notes r) = unknown_use_note ''nonexistent_use'')"
proof -
  have n: "map_of PARKING_RATIOS ''nonexistent_use'' = None"
    by (simp add: PARKING_RATIOS_def)
  have "map_sum id required_spaces
          (calculate_parking ''nonexistent_use'' (PInt 5000) 0 0 0 None) = Inr 15"
    by code_simp
  then obtain r where r: "calculate_parking ''nonexistent_use'' (PInt 5000) 0 0 0 None = Inr r"
    by (cases "calculate_parking ''nonexistent_use'' (PInt 5000) 0 0 0 None") auto
  from unknown_use_reported_as_office_general [OF n r] n r show ?thesis by blast
qed

end
